theory Spec2Isabelle
  imports
    Main
    "HOL-Library.Sublist"
    "HOL-Library.Char_ord"
    "HOL-Library.List_Lexorder"
    "HOL-Library.Option_ord"
    "HOL-Library.Product_Lexorder"
begin

section \<open>Clear: the natural-language task assistant of \<^verbatim>\<open>assistant.py\<close>\<close>

text \<open>
  A shallow embedding of the natural-language resolver \<^verbatim>\<open>process_natural_language\<close>, its
  helpers \<^verbatim>\<open>extract_task_content\<close> and \<^verbatim>\<open>parse_date_from_text\<close>, and the token check
  \<^verbatim>\<open>verify_token\<close> with the \<^verbatim>\<open>/logout\<close> endpoint.

  Conventions of the model.
  \<^item> A Python \<^verbatim>\<open>str\<close> is a HOL \<^typ>\<open>string\<close>, one \<^typ>\<open>char\<close> per code point: the model
    is about text of code points below 256 (ASCII and Latin-1), and the character
    functions below (\<^verbatim>\<open>lower\<close>, \<^verbatim>\<open>isspace\<close>, \<^verbatim>\<open>\w\<close>, ...) are Python's on these code
    points.
  \<^item> The SQLite file is a record of its tables; a table is the list of its rows in
    rowid order, which is the order a \<^verbatim>\<open>SELECT\<close> without \<^verbatim>\<open>ORDER BY\<close> scans them in.
  \<^item> The clock, the store's \<^verbatim>\<open>CURRENT_TIMESTAMP\<close> and the external library
    \<^verbatim>\<open>dateparser\<close> are parameters, collected in an environment record.
  \<^item> An exception is a value: a function that can raise returns \<open>py_error + 'a\<close>.
\<close>

subsection \<open>Strings\<close>

definition ascii_uppercase :: string where
  "ascii_uppercase = ''ABCDEFGHIJKLMNOPQRSTUVWXYZ''"

definition ascii_lowercase :: string where
  "ascii_lowercase = ''abcdefghijklmnopqrstuvwxyz''"

definition digits :: string where
  "digits = ''0123456789''"

text \<open>
  The upper-case letters of Latin-1, U+00C0 to U+00DE without the sign U+00D7, and
  their lower-case forms, U+00E0 to U+00FE without U+00F7, in the same order.
\<close>

definition latin1_uppercase :: string where
  "latin1_uppercase =
     [CHR 0xC0, CHR 0xC1, CHR 0xC2, CHR 0xC3, CHR 0xC4, CHR 0xC5, CHR 0xC6, CHR 0xC7,
      CHR 0xC8, CHR 0xC9, CHR 0xCA, CHR 0xCB, CHR 0xCC, CHR 0xCD, CHR 0xCE, CHR 0xCF,
      CHR 0xD0, CHR 0xD1, CHR 0xD2, CHR 0xD3, CHR 0xD4, CHR 0xD5, CHR 0xD6, CHR 0xD8,
      CHR 0xD9, CHR 0xDA, CHR 0xDB, CHR 0xDC, CHR 0xDD, CHR 0xDE]"

definition latin1_lowercase :: string where
  "latin1_lowercase =
     [CHR 0xE0, CHR 0xE1, CHR 0xE2, CHR 0xE3, CHR 0xE4, CHR 0xE5, CHR 0xE6, CHR 0xE7,
      CHR 0xE8, CHR 0xE9, CHR 0xEA, CHR 0xEB, CHR 0xEC, CHR 0xED, CHR 0xEE, CHR 0xEF,
      CHR 0xF0, CHR 0xF1, CHR 0xF2, CHR 0xF3, CHR 0xF4, CHR 0xF5, CHR 0xF6, CHR 0xF8,
      CHR 0xF9, CHR 0xFA, CHR 0xFB, CHR 0xFC, CHR 0xFD, CHR 0xFE]"

text \<open>\<^verbatim>\<open>str.lower\<close> and \<^verbatim>\<open>str.upper\<close> on one character that has a one-character form.\<close>

definition lower_char :: "char \<Rightarrow> char" where
  "lower_char c =
     (case map_of (zip (ascii_uppercase @ latin1_uppercase) (ascii_lowercase @ latin1_lowercase)) c of
        Some l \<Rightarrow> l | None \<Rightarrow> c)"

definition upper_char :: "char \<Rightarrow> char" where
  "upper_char c =
     (case map_of (zip (ascii_lowercase @ latin1_lowercase) (ascii_uppercase @ latin1_uppercase)) c of
        Some u \<Rightarrow> u | None \<Rightarrow> c)"

definition lower :: "string \<Rightarrow> string" where
  "lower s = map lower_char s"

text \<open>
  \<^verbatim>\<open>str.isspace\<close>, which is also the class \<^verbatim>\<open>\s\<close> of \<^verbatim>\<open>re\<close> on a \<^verbatim>\<open>str\<close>: the code points
  9 to 13, 28 to 31, 32, U+0085 and U+00A0.
\<close>

definition whitespace :: string where
  "whitespace = [CHR 0x09, CHR 0x0A, CHR 0x0B, CHR 0x0C, CHR 0x0D,
                 CHR 0x1C, CHR 0x1D, CHR 0x1E, CHR 0x1F, CHR 0x20, CHR 0x85, CHR 0xA0]"

definition isspace :: "char \<Rightarrow> bool" where
  "isspace c = (c \<in> set whitespace)"

definition strip :: "string \<Rightarrow> string" where
  "strip s = rev (dropWhile isspace (rev (dropWhile isspace s)))"

text \<open>
  \<^verbatim>\<open>str.split()\<close> with no separator: the maximal runs of non-whitespace characters.
  \<open>cur\<close> is the word being read.
\<close>

fun split_from :: "string \<Rightarrow> string \<Rightarrow> string list" where
  "split_from cur [] = (if cur = [] then [] else [cur])"
| "split_from cur (c # cs) =
     (if isspace c then (if cur = [] then split_from [] cs else cur # split_from [] cs)
      else split_from (cur @ [c]) cs)"

definition split :: "string \<Rightarrow> string list" where
  "split s = split_from [] s"

text \<open>
  \<^verbatim>\<open>str.capitalize\<close>: the first character in title case, the rest in lower case. The
  title case of U+00DF is the two letters \<^verbatim>\<open>Ss\<close>. The title cases of U+00B5 and U+00FF
  are U+039C and U+0178, which are not code points below 256: a text that capitalizes
  one of the two is outside the model, which leaves the character as it is.
\<close>

definition title :: "char \<Rightarrow> string" where
  "title c = (if c = CHR 0xDF then ''Ss'' else [upper_char c])"

definition capitalize :: "string \<Rightarrow> string" where
  "capitalize s = (case s of [] \<Rightarrow> [] | c # cs \<Rightarrow> title c @ lower cs)"

text \<open>The operator \<^verbatim>\<open>w in t\<close> on strings: \<open>w\<close> is a contiguous part of \<open>t\<close>.\<close>

definition str_in :: "string \<Rightarrow> string \<Rightarrow> bool" where
  "str_in w t = sublist w t"

text \<open>\<^verbatim>\<open>any(word in t for word in words)\<close>.\<close>

definition any_in :: "string list \<Rightarrow> string \<Rightarrow> bool" where
  "any_in ws t = list_ex (\<lambda>word. str_in word t) ws"

text \<open>\<^verbatim>\<open>str(n)\<close> for a natural number, and a number in a field of two digits.\<close>

definition digit_char :: "nat \<Rightarrow> char" where
  "digit_char n = digits ! (n mod 10)"

fun str_nat :: "nat \<Rightarrow> string" where
  "str_nat n = (if n < 10 then [digit_char n] else str_nat (n div 10) @ [digit_char n])"

declare str_nat.simps [simp del]

definition pad2 :: "nat \<Rightarrow> string" where
  "pad2 n = [digit_char (n div 10), digit_char n]"

subsection \<open>The regular expressions of \<^verbatim>\<open>extract_task_content\<close>\<close>

text \<open>
  Every pattern of the source is a sequence of assertions (\<^verbatim>\<open>^\<close>, \<^verbatim>\<open>\b\<close>) and of
  one-character atoms under a greedy quantifier: a literal is the atom repeated once,
  \<^verbatim>\<open>\s+\<close> is \<open>Rep Space 1 None\<close>, \<^verbatim>\<open>s?\<close> is \<open>Rep (Lit CHR ''s'') 0 (Some 1)\<close> and
  \<^verbatim>\<open>\d{1,2}\<close> is \<open>Rep Digit 1 (Some 2)\<close>.
\<close>

datatype atom = Lit char | Space | Word | Digit

datatype item = Bol | Boundary | Rep atom nat "nat option"

type_synonym pattern = "item list"

text \<open>
  The class \<^verbatim>\<open>\w\<close> of \<^verbatim>\<open>re\<close> on a \<^verbatim>\<open>str\<close>: the characters that \<^verbatim>\<open>str.isalnum\<close> accepts, and
  the underscore. Below 256 these are the letters and digits of ASCII, the letters of
  Latin-1 (with U+00AA, U+00B5, U+00BA, U+00DF and U+00FF) and the numeric characters
  U+00B2, U+00B3, U+00B9, U+00BC, U+00BD and U+00BE.
\<close>

definition is_word_char :: "char \<Rightarrow> bool" where
  "is_word_char c =
     (c \<in> set (ascii_lowercase @ ascii_uppercase @ digits @ ''_'' @
                latin1_lowercase @ latin1_uppercase @
                [CHR 0xAA, CHR 0xB2, CHR 0xB3, CHR 0xB5, CHR 0xB9, CHR 0xBA, CHR 0xBC,
                 CHR 0xBD, CHR 0xBE, CHR 0xDF, CHR 0xFF]))"

text \<open>One character against an atom, under \<^verbatim>\<open>re.IGNORECASE\<close>.\<close>

fun atom_matches :: "atom \<Rightarrow> char \<Rightarrow> bool" where
  "atom_matches (Lit l) c = (lower_char c = lower_char l)"
| "atom_matches Space c = isspace c"
| "atom_matches Word c = is_word_char c"
| "atom_matches Digit c = (c \<in> set digits)"

definition word_before :: "char option \<Rightarrow> bool" where
  "word_before prev = (case prev of None \<Rightarrow> False | Some c \<Rightarrow> is_word_char c)"

definition word_after :: "string \<Rightarrow> bool" where
  "word_after s = (case s of [] \<Rightarrow> False | c # _ \<Rightarrow> is_word_char c)"

fun first_some :: "('a \<Rightarrow> 'b option) \<Rightarrow> 'a list \<Rightarrow> 'b option" where
  "first_some f [] = None"
| "first_some f (k # ks) = (case f k of Some r \<Rightarrow> Some r | None \<Rightarrow> first_some f ks)"

definition prev_after :: "char option \<Rightarrow> string \<Rightarrow> nat \<Rightarrow> char option" where
  "prev_after prev s k = (if k = 0 then prev else Some (s ! (k - 1)))"

text \<open>
  The backtracking matcher at one position of the subject: \<open>prev\<close> is the character
  before the position (\<open>None\<close> at the start of the string), \<open>s\<close> the text from the
  position on. A quantified atom first takes as many characters as it can (at most its
  upper bound) and gives them back one at a time until the rest of the pattern matches.
  The result is the position after the match.
\<close>

fun match_here :: "pattern \<Rightarrow> char option \<Rightarrow> string \<Rightarrow> (char option \<times> string) option" where
  "match_here [] prev s = Some (prev, s)"
| "match_here (Bol # p) prev s = (if prev = None then match_here p prev s else None)"
| "match_here (Boundary # p) prev s =
     (if word_before prev \<noteq> word_after s then match_here p prev s else None)"
| "match_here (Rep a lo hi # p) prev s =
     (let n = length (takeWhile (atom_matches a) s);
          most = (case hi of None \<Rightarrow> n | Some h \<Rightarrow> min n h)
      in first_some (\<lambda>k. match_here p (prev_after prev s k) (drop k s)) (rev [lo..<Suc most]))"

text \<open>
  \<^verbatim>\<open>re.sub(pattern, '', s, flags=re.IGNORECASE)\<close>: scanning from the left, every match
  is removed and the scan goes on after it; where nothing (or only the empty string)
  matches, the character is kept.
\<close>

function re_sub_from :: "pattern \<Rightarrow> char option \<Rightarrow> string \<Rightarrow> string" where
  "re_sub_from p prev [] = []"
| "re_sub_from p prev (c # cs) =
     (case match_here p prev (c # cs) of
        None \<Rightarrow> c # re_sub_from p (Some c) cs
      | Some (prev', rest) \<Rightarrow>
          if length rest < length (c # cs) then re_sub_from p prev' rest
          else c # re_sub_from p (Some c) cs)"
  by pat_completeness auto
termination
  by (relation "measure (\<lambda>(p, prev, s). length s)") auto

definition re_sub :: "pattern \<Rightarrow> string \<Rightarrow> string" where
  "re_sub p s = re_sub_from p None s"

definition lit :: "string \<Rightarrow> pattern" where
  "lit s = map (\<lambda>c. Rep (Lit c) 1 (Some 1)) s"

definition spaces :: pattern where
  "spaces = [Rep Space 1 None]"

definition prefixes_to_remove :: "pattern list" where
  "prefixes_to_remove =
    [Bol # lit ''remind me to'' @ spaces,
     Bol # lit ''add task'' @ spaces,
     Bol # lit ''add'' @ spaces,
     Bol # lit ''create task'' @ spaces,
     Bol # lit ''i need to'' @ spaces,
     Bol # lit ''i have to'' @ spaces,
     Bol # lit ''i should'' @ spaces,
     Bol # lit (''don'' @ [CHR 0x27] @ ''t forget to'') @ spaces,
     Bol # lit ''remember to'' @ spaces]"

definition date_references :: "pattern list" where
  "date_references =
    [spaces @ lit ''on '' @ [Rep Word 1 None] @ lit ''day'' @ [Boundary],
     spaces @ lit ''tomorrow'' @ [Boundary],
     spaces @ lit ''today'' @ [Boundary],
     spaces @ lit ''next '' @ [Rep Word 1 None, Boundary],
     spaces @ lit ''this '' @ [Rep Word 1 None, Boundary],
     spaces @ lit ''by end of week'' @ [Boundary],
     spaces @ lit ''end of week'' @ [Boundary],
     spaces @ lit ''by end of month'' @ [Boundary],
     spaces @ lit ''end of month'' @ [Boundary],
     spaces @ lit ''in '' @ [Rep Digit 1 None] @ lit '' day'' @ [Rep (Lit CHR ''s'') 0 (Some 1), Boundary],
     spaces @ lit ''on '' @ [Rep Digit 1 (Some 2)] @ lit ''/'' @ [Rep Digit 1 (Some 2), Boundary]]"

text \<open>
  \<^verbatim>\<open>extract_task_content\<close>: the two \<^verbatim>\<open>for\<close> loops apply each pattern in turn to the
  text the previous one left.
\<close>

definition extract_task_content :: "string \<Rightarrow> string" where
  "extract_task_content text =
     (let cleaned_text = strip (lower text);
          cleaned_text = foldl (\<lambda>t pattern. re_sub pattern t) cleaned_text prefixes_to_remove;
          cleaned_text = foldl (\<lambda>t pattern. re_sub pattern t) cleaned_text date_references
      in capitalize (strip cleaned_text))"

subsection \<open>Calendar dates\<close>

text \<open>
  \<^verbatim>\<open>datetime.now()\<close> is used for its calendar date only: the functions below read its
  weekday and month, shift it by whole days and print it with \<^verbatim>\<open>%Y-%m-%d\<close>. A date is
  its three fields; \<^verbatim>\<open>datetime\<close> holds the years 1 to 9999.
\<close>

datatype py_error = OverflowError | ValueError

record date =
  year :: nat
  month :: nat
  day :: nat

definition is_leap :: "nat \<Rightarrow> bool" where
  "is_leap y = (y mod 4 = 0 \<and> (y mod 100 \<noteq> 0 \<or> y mod 400 = 0))"

definition days_in_month :: "nat \<Rightarrow> nat \<Rightarrow> nat" where
  "days_in_month y m =
     (if m = 2 then (if is_leap y then 29 else 28)
      else if m = 4 \<or> m = 6 \<or> m = 9 \<or> m = 11 then 30 else 31)"

definition valid_date :: "date \<Rightarrow> bool" where
  "valid_date d =
     (1 \<le> year d \<and> year d \<le> 9999 \<and> 1 \<le> month d \<and> month d \<le> 12 \<and>
      1 \<le> day d \<and> day d \<le> days_in_month (year d) (month d))"

text \<open>
  The same without the upper bound on the year: the dates that counting days forward
  from a date of \<^verbatim>\<open>datetime\<close> passes through.
\<close>

definition wf_date :: "date \<Rightarrow> bool" where
  "wf_date d = (1 \<le> year d \<and> 1 \<le> month d \<and> month d \<le> 12 \<and> 1 \<le> day d \<and> day d \<le> days_in_month (year d) (month d))"

text \<open>
  \<^verbatim>\<open>date.toordinal\<close>: the number of the day, 0001-01-01 being day 1; and
  \<^verbatim>\<open>date.weekday\<close>, Monday being 0 and Sunday 6.
\<close>

definition days_before_year :: "nat \<Rightarrow> int" where
  "days_before_year y = (let y' = int y - 1 in y' * 365 + y' div 4 - y' div 100 + y' div 400)"

definition days_before_month :: "nat \<Rightarrow> nat \<Rightarrow> int" where
  "days_before_month y m = int (sum_list (map (days_in_month y) [1..<m]))"

definition toordinal :: "date \<Rightarrow> int" where
  "toordinal d = days_before_year (year d) + days_before_month (year d) (month d) + int (day d)"

definition weekday :: "date \<Rightarrow> int" where
  "weekday d = (toordinal d + 6) mod 7"

text \<open>The day after and the day before a date.\<close>

definition next_day :: "date \<Rightarrow> date" where
  "next_day d =
     (if day d < days_in_month (year d) (month d) then d\<lparr>day := day d + 1\<rparr>
      else if month d < 12 then d\<lparr>month := month d + 1, day := 1\<rparr>
      else \<lparr>year = year d + 1, month = 1, day = 1\<rparr>)"

definition prev_day :: "date \<Rightarrow> date" where
  "prev_day d =
     (if 1 < day d then d\<lparr>day := day d - 1\<rparr>
      else if 1 < month d
        then d\<lparr>month := month d - 1, day := days_in_month (year d) (month d - 1)\<rparr>
      else \<lparr>year = year d - 1, month = 12, day = 31\<rparr>)"

text \<open>
  \<^verbatim>\<open>d + timedelta(days=k)\<close> (and \<^verbatim>\<open>d - timedelta(days=k)\<close> as \<open>add_days d (- k)\<close>): the date
  \<open>k\<close> days later, and \<^verbatim>\<open>OverflowError\<close> when that date is outside the years 1 to 9999.
\<close>

definition add_days :: "date \<Rightarrow> int \<Rightarrow> py_error + date" where
  "add_days d k =
     (let r = (if 0 \<le> k then (next_day ^^ nat k) d else (prev_day ^^ nat (- k)) d)
      in if 1 \<le> year r \<and> year r \<le> 9999 then Inr r else Inl OverflowError)"

text \<open>
  \<^verbatim>\<open>d.replace(month=m, day=n)\<close>: the fields are replaced and the result is checked;
  an impossible date raises \<^verbatim>\<open>ValueError\<close>.
\<close>

definition replace :: "date \<Rightarrow> nat \<Rightarrow> nat \<Rightarrow> py_error + date" where
  "replace d m n =
     (let r = d\<lparr>month := m, day := n\<rparr> in if valid_date r then Inr r else Inl ValueError)"

text \<open>
  \<^verbatim>\<open>strftime("%Y-%m-%d")\<close> as CPython prints it with the C library of Linux: the month
  and the day in two digits, the year without leading zeros (four digits from the year
  1000 on). \<^verbatim>\<open>strptime(s, "%Y-%m-%d")\<close> wants a year of four digits; it is modelled on the
  fixed-width form \<^verbatim>\<open>YYYY-MM-DD\<close>, the only form with a year of four digits that
  \<^verbatim>\<open>strftime\<close> prints, and raises \<^verbatim>\<open>ValueError\<close> on every other string.
\<close>

definition strftime_ymd :: "date \<Rightarrow> string" where
  "strftime_ymd d = str_nat (year d) @ ''-'' @ pad2 (month d) @ ''-'' @ pad2 (day d)"

definition digit_value :: "char \<Rightarrow> nat option" where
  "digit_value c = map_of (zip digits [0..<10]) c"

fun number :: "string \<Rightarrow> nat option" where
  "number [] = Some 0"
| "number (c # cs) =
     (case (digit_value c, number cs) of
        (Some v, Some r) \<Rightarrow> Some (v * 10 ^ length cs + r)
      | _ \<Rightarrow> None)"

definition strptime_ymd :: "string \<Rightarrow> py_error + date" where
  "strptime_ymd s =
     (if length s = 10 \<and> s ! 4 = CHR ''-'' \<and> s ! 7 = CHR ''-'' then
        (case (number (take 4 s), number (take 2 (drop 5 s)), number (drop 8 s)) of
           (Some y, Some m, Some n) \<Rightarrow>
             (let r = \<lparr>year = y, month = m, day = n\<rparr>
              in if valid_date r then Inr r else Inl ValueError)
         | _ \<Rightarrow> Inl ValueError)
      else Inl ValueError)"

text \<open>\<^verbatim>\<open>strftime("%A, %B %d")\<close> in the C locale.\<close>

definition day_name :: "string list" where
  "day_name = [''Monday'', ''Tuesday'', ''Wednesday'', ''Thursday'', ''Friday'', ''Saturday'',
               ''Sunday'']"

definition month_name :: "string list" where
  "month_name = [''January'', ''February'', ''March'', ''April'', ''May'', ''June'', ''July'',
                 ''August'', ''September'', ''October'', ''November'', ''December'']"

definition strftime_friendly :: "date \<Rightarrow> string" where
  "strftime_friendly d =
     day_name ! nat (weekday d) @ '', '' @ month_name ! (month d - 1) @ '' '' @ pad2 (day d)"

subsection \<open>The environment of a request\<close>

text \<open>
  \<open>today\<close> is the date of \<^verbatim>\<open>datetime.now()\<close>, \<open>current_timestamp\<close> the store's
  \<^verbatim>\<open>CURRENT_TIMESTAMP\<close>, and \<open>dateparser_parse text\<close> the date of
  \<^verbatim>\<open>dateparser.parse(text, settings={'PREFER_DATES_FROM': 'future', 'RELATIVE_BASE': datetime.now()})\<close>,
  \<open>None\<close> when the library finds no date. The library is not part of the repository.
\<close>

record env =
  today :: date
  current_timestamp :: string
  dateparser_parse :: "string \<Rightarrow> date option"

definition env_ok :: "env \<Rightarrow> bool" where
  "env_ok e = (valid_date (today e) \<and> (\<forall>text d. dateparser_parse e text = Some d \<longrightarrow> valid_date d))"

subsection \<open>\<^verbatim>\<open>parse_date_from_text\<close>\<close>

definition parse_date_from_text :: "env \<Rightarrow> string \<Rightarrow> py_error + string option" where
  "parse_date_from_text e text =
     (if str_in ''end of week'' (lower text) then
        (let days_until_sunday = (6 - weekday (today e)) mod 7;
             days_until_sunday = (if days_until_sunday = 0 then 7 else days_until_sunday)
         in case add_days (today e) days_until_sunday of
              Inl err \<Rightarrow> Inl err
            | Inr end_of_week \<Rightarrow> Inr (Some (strftime_ymd end_of_week)))
      else if str_in ''end of month'' (lower text) then
        (case (if month (today e) = 12 then replace (today e) 12 31
               else (case replace (today e) (month (today e) + 1) 1 of
                       Inl err \<Rightarrow> Inl err
                     | Inr next_month \<Rightarrow> add_days next_month (- 1))) of
           Inl err \<Rightarrow> Inl err
         | Inr last_day \<Rightarrow> Inr (Some (strftime_ymd last_day)))
      else
        (case dateparser_parse e text of
           Some parsed_date \<Rightarrow> Inr (Some (strftime_ymd parsed_date))
         | None \<Rightarrow> Inr None))"

subsection \<open>The task store\<close>

text \<open>
  \<open>Task\<close> is the response model of the source; a row of the table \<^verbatim>\<open>tasks\<close> has the
  column \<^verbatim>\<open>user_id\<close> besides, and \<^verbatim>\<open>Task(**dict(row))\<close> drops it. The column \<^verbatim>\<open>id\<close> is
  \<open>task_id\<close> here.
\<close>

record Task =
  task_id :: int
  content :: string
  status :: string
  due_date :: "string option"
  created_at :: string

record task_row = Task +
  user_id :: int

definition Task_of_row :: "task_row \<Rightarrow> Task" where
  "Task_of_row row =
     \<lparr>task_id = task_id row, content = content row, status = status row,
      due_date = due_date row, created_at = created_at row\<rparr>"

record token_row =
  token_user_id :: int
  token :: string
  expires_at :: string

text \<open>
  The database: the rows of \<^verbatim>\<open>tasks\<close>, the largest id the table has ever held (SQLite's
  \<^verbatim>\<open>sqlite_sequence\<close> entry of an \<^verbatim>\<open>AUTOINCREMENT\<close> key), and the rows of \<^verbatim>\<open>tokens\<close>.
\<close>

record database =
  tasks_table :: "task_row list"
  tasks_seq :: int
  tokens_table :: "token_row list"

text \<open>
  \<^verbatim>\<open>SELECT * FROM tasks WHERE user_id = ? AND due_date = ? AND status = 'pending' ORDER BY created_at\<close>
\<close>

definition select_due :: "int \<Rightarrow> string \<Rightarrow> database \<Rightarrow> task_row list" where
  "select_due uid due db =
     sort_key created_at
       (filter (\<lambda>row. user_id row = uid \<and> due_date row = Some due \<and> status row = ''pending'')
          (tasks_table db))"

text \<open>
  \<^verbatim>\<open>SELECT * FROM tasks WHERE user_id = ? AND status = 'done' ORDER BY created_at DESC\<close>:
  the later rows first; SQLite returns the rows with equal \<^verbatim>\<open>created_at\<close> in the table's
  order, as it does for the ascending orders of the other queries (\<open>sort_key\<close> keeps
  the order of equal keys).
\<close>

definition select_done :: "int \<Rightarrow> database \<Rightarrow> task_row list" where
  "select_done uid db =
     rev (sort_key created_at
       (rev (filter (\<lambda>row. user_id row = uid \<and> status row = ''done'') (tasks_table db))))"

text \<open>
  \<^verbatim>\<open>SELECT * FROM tasks WHERE user_id = ? AND status = 'pending' ORDER BY due_date, created_at\<close>:
  SQLite puts the rows without a due date first.
\<close>

definition select_pending_sorted :: "int \<Rightarrow> database \<Rightarrow> task_row list" where
  "select_pending_sorted uid db =
     sort_key (\<lambda>row. (due_date row, created_at row))
       (filter (\<lambda>row. user_id row = uid \<and> status row = ''pending'') (tasks_table db))"

text \<open>\<^verbatim>\<open>SELECT * FROM tasks WHERE user_id = ? AND status = 'pending'\<close>\<close>

definition select_pending :: "int \<Rightarrow> database \<Rightarrow> task_row list" where
  "select_pending uid db =
     filter (\<lambda>row. user_id row = uid \<and> status row = ''pending'') (tasks_table db)"

text \<open>\<^verbatim>\<open>UPDATE tasks SET status = 'done' WHERE id = ? AND user_id = ?\<close>\<close>

definition update_done :: "int \<Rightarrow> int \<Rightarrow> database \<Rightarrow> database" where
  "update_done i uid db =
     db\<lparr>tasks_table :=
          map (\<lambda>row. if task_id row = i \<and> user_id row = uid then row\<lparr>status := ''done''\<rparr> else row)
            (tasks_table db)\<rparr>"

text \<open>\<^verbatim>\<open>DELETE FROM tasks WHERE id = ? AND user_id = ?\<close>\<close>

definition delete_row :: "int \<Rightarrow> int \<Rightarrow> database \<Rightarrow> database" where
  "delete_row i uid db =
     db\<lparr>tasks_table :=
          filter (\<lambda>row. \<not> (task_id row = i \<and> user_id row = uid)) (tasks_table db)\<rparr>"

text \<open>
  \<^verbatim>\<open>INSERT INTO tasks (user_id, content, status, due_date) VALUES (?, ?, 'pending', ?)\<close>:
  the new id is one more than the largest the table has ever held, and \<^verbatim>\<open>created_at\<close>
  takes its default.
\<close>

definition insert_task :: "env \<Rightarrow> int \<Rightarrow> string \<Rightarrow> string option \<Rightarrow> database \<Rightarrow> database" where
  "insert_task e uid c due db =
     (let new_id = foldr max (map task_id (tasks_table db)) (tasks_seq db) + 1
      in db\<lparr>tasks_table := tasks_table db @
               [\<lparr>task_id = new_id, content = c, status = ''pending'', due_date = due,
                 created_at = current_timestamp e, user_id = uid\<rparr>],
             tasks_seq := new_id\<rparr>)"

subsection \<open>\<^verbatim>\<open>process_natural_language\<close>\<close>

record AssistantResponse =
  message :: string
  tasks :: "Task list option"
  action :: string

text \<open>The apostrophe that the messages put around a task's content.\<close>

definition apostrophe :: string where
  "apostrophe = [CHR 0x27]"

text \<open>
  The test of the two matching loops:
  \<^verbatim>\<open>any(word in text_lower for word in task['content'].lower().split() if len(word) > 3)\<close>.
\<close>

definition task_matches :: "string \<Rightarrow> task_row \<Rightarrow> bool" where
  "task_matches text_lower task =
     (let task_words = split (lower (content task))
      in any_in (filter (\<lambda>word. length word > 3) task_words) text_lower)"

text \<open>
  The resolver returns its response, or the exception it raised, and the database it
  leaves. The four branches of its \<^verbatim>\<open>if\<close> / \<^verbatim>\<open>elif\<close> chain are written as four definitions,
  each with the queries and statements of the source in the source's order; the loop
  \<^verbatim>\<open>for task in pending_tasks: if ...: matched_task = task; break\<close> is \<open>find\<close>.
\<close>

text \<open>Lines 402 to 433, under \<^verbatim>\<open># INTENT: Show/List Tasks\<close>.\<close>

definition list_intent ::
    "env \<Rightarrow> string \<Rightarrow> int \<Rightarrow> database \<Rightarrow> (py_error + AssistantResponse) \<times> database" where
  "list_intent e text_lower uid db =
     (let rows =
            (if str_in ''today'' text_lower then select_due uid (strftime_ymd (today e)) db
             else if str_in ''done'' text_lower \<or> str_in ''completed'' text_lower
               then select_done uid db
             else select_pending_sorted uid db);
          tasks' = map Task_of_row rows
      in if tasks' \<noteq> [] then
           (Inr \<lparr>message = ''Here are your tasks ('' @ str_nat (length tasks') @ '' total):'',
                 tasks = Some tasks', action = ''list''\<rparr>, db)
         else
           (Inr \<lparr>message = ''You have no pending tasks. Nice work!'',
                 tasks = Some [], action = ''list''\<rparr>, db))"

text \<open>Lines 438 to 467, under \<^verbatim>\<open># INTENT: Mark Task as Done\<close>.\<close>

definition complete_intent ::
    "string \<Rightarrow> int \<Rightarrow> database \<Rightarrow> (py_error + AssistantResponse) \<times> database" where
  "complete_intent text_lower uid db =
     (let pending_tasks = select_pending uid db in
      case find (task_matches text_lower) pending_tasks of
        Some matched_task \<Rightarrow>
          (Inr \<lparr>message = ''Great job! Marked '' @ apostrophe @ content matched_task @
                           apostrophe @ '' as done!'',
                tasks = None, action = ''complete''\<rparr>,
           update_done (task_id matched_task) uid db)
      | None \<Rightarrow>
          (Inr \<lparr>message = ''I couldn't find that task. Here are your pending tasks:'',
                tasks = Some (map Task_of_row pending_tasks), action = ''list''\<rparr>, db))"

text \<open>Lines 472 to 501, under \<^verbatim>\<open># INTENT: Delete Task\<close>.\<close>

definition delete_intent ::
    "string \<Rightarrow> int \<Rightarrow> database \<Rightarrow> (py_error + AssistantResponse) \<times> database" where
  "delete_intent text_lower uid db =
     (let pending_tasks = select_pending uid db in
      case find (task_matches text_lower) pending_tasks of
        Some matched_task \<Rightarrow>
          (Inr \<lparr>message = ''Deleted task: '' @ apostrophe @ content matched_task @ apostrophe,
                tasks = None, action = ''delete''\<rparr>,
           delete_row (task_id matched_task) uid db)
      | None \<Rightarrow>
          (Inr \<lparr>message = ''I couldn't find that task to delete. Here are your tasks:'',
                tasks = Some (map Task_of_row pending_tasks), action = ''list''\<rparr>, db))"

text \<open>
  Lines 505 to 530, under \<^verbatim>\<open># INTENT: Add New Task (Default)\<close>. \<^verbatim>\<open>if due_date:\<close> holds for
  a string that is not empty.
\<close>

definition add_intent ::
    "env \<Rightarrow> string \<Rightarrow> int \<Rightarrow> database \<Rightarrow> (py_error + AssistantResponse) \<times> database" where
  "add_intent e text uid db =
     (let task_content = extract_task_content text in
      case parse_date_from_text e text of
        Inl err \<Rightarrow> (Inl err, db)
      | Inr due_date' \<Rightarrow>
          if task_content = [] \<or> length task_content < 2 then
            (Inr \<lparr>message = ''I didn't quite catch that. Try something like '' @ apostrophe @
                             ''Remind me to call mom tomorrow'' @ apostrophe,
                  tasks = None, action = ''error''\<rparr>, db)
          else
            (let db' = insert_task e uid task_content due_date' db in
             if due_date' \<noteq> None \<and> due_date' \<noteq> Some [] then
               (case strptime_ymd (the due_date') of
                  Inl err \<Rightarrow> (Inl err, db')
                | Inr date_obj \<Rightarrow>
                    (Inr \<lparr>message = ''Got it! Added: '' @ apostrophe @ task_content @
                                     apostrophe @ '' due '' @ strftime_friendly date_obj,
                          tasks = None, action = ''add''\<rparr>, db'))
             else
               (Inr \<lparr>message = ''Got it! Added: '' @ apostrophe @ task_content @
                                apostrophe @ '' (no due date)'',
                     tasks = None, action = ''add''\<rparr>, db')))"

definition process_natural_language ::
    "env \<Rightarrow> string \<Rightarrow> int \<Rightarrow> database \<Rightarrow> (py_error + AssistantResponse) \<times> database" where
  "process_natural_language e text uid db =
     (let text_lower = strip (lower text) in
      if any_in [''show'', ''list'', ''what's'', ''what do i have'', ''my tasks'', ''view'']
           text_lower
        then list_intent e text_lower uid db
      else if any_in [''done'', ''finished'', ''complete'', ''completed''] text_lower
        then complete_intent text_lower uid db
      else if any_in [''delete'', ''remove'', ''cancel''] text_lower
        then delete_intent text_lower uid db
      else add_intent e text uid db)"

text \<open>
  The classifier as section 4.1 of the specification words it, for comparison with the
  chain above: the first of the three keyword sets with a member that occurs in the
  text decides, and \<open>add\<close> is the fallback.
\<close>

datatype intent = Intent_list | Intent_complete | Intent_delete | Intent_add

definition spec_intent :: "string \<Rightarrow> intent" where
  "spec_intent t =
     (if \<exists>w \<in> {''show'', ''list'', ''what's'', ''what do i have'', ''my tasks'', ''view''}. sublist w t
        then Intent_list
      else if \<exists>w \<in> {''done'', ''finished'', ''complete'', ''completed''}. sublist w t
        then Intent_complete
      else if \<exists>w \<in> {''delete'', ''remove'', ''cancel''}. sublist w t
        then Intent_delete
      else Intent_add)"

subsection \<open>Tokens: \<^verbatim>\<open>verify_token\<close>, \<^verbatim>\<open>get_current_user\<close> and \<^verbatim>\<open>logout\<close>\<close>

text \<open>
  The payload that \<^verbatim>\<open>create_token\<close> encodes. The primitives of the standard library
  are parameters: \<open>signature_of b\<close> is
  \<^verbatim>\<open>hashlib.sha256((b + SECRET_KEY).encode()).hexdigest()[:16]\<close>, \<open>decode_payload b\<close> is
  \<^verbatim>\<open>json.loads(base64.urlsafe_b64decode(b.encode()).decode())\<close> and \<open>fromisoformat s\<close> is
  the instant of \<^verbatim>\<open>datetime.fromisoformat(s)\<close>, counted in microseconds; each is \<open>None\<close>
  where the source's call raises, which \<^verbatim>\<open>verify_token\<close> catches.
\<close>

record payload =
  payload_user_id :: int
  username :: string
  expires :: string
  random :: string

record codec =
  signature_of :: "string \<Rightarrow> string"
  decode_payload :: "string \<Rightarrow> payload option"
  fromisoformat :: "string \<Rightarrow> nat option"

text \<open>\<^verbatim>\<open>s.split(sep)\<close> for a separator of one character.\<close>

fun split_on :: "char \<Rightarrow> string \<Rightarrow> string list" where
  "split_on sep [] = [[]]"
| "split_on sep (c # cs) =
     (if c = sep then [] # split_on sep cs
      else (case split_on sep cs of [] \<Rightarrow> [[c]] | piece # pieces \<Rightarrow> (c # piece) # pieces))"

text \<open>
  \<open>now\<close> is the instant of \<^verbatim>\<open>datetime.now()\<close>. Unpacking \<^verbatim>\<open>token.split(".")\<close> into two
  names raises unless there are exactly two pieces; every exception gives \<open>None\<close>.
\<close>

definition verify_token :: "codec \<Rightarrow> database \<Rightarrow> nat \<Rightarrow> string \<Rightarrow> payload option" where
  "verify_token k db now tok =
     (case split_on CHR ''.'' tok of
        [payload_b64, signature] \<Rightarrow>
          if signature \<noteq> signature_of k payload_b64 then None
          else (case decode_payload k payload_b64 of
                  None \<Rightarrow> None
                | Some payload \<Rightarrow>
                    (case fromisoformat k (expires payload) of
                       None \<Rightarrow> None
                     | Some expires' \<Rightarrow>
                         if now > expires' then None
                         else if filter (\<lambda>row. token row = tok) (tokens_table db) = [] then None
                         else Some payload))
      | _ \<Rightarrow> None)"

datatype http_error = HTTP_401_UNAUTHORIZED string

definition get_current_user ::
    "codec \<Rightarrow> database \<Rightarrow> nat \<Rightarrow> string option \<Rightarrow> http_error + payload" where
  "get_current_user k db now credentials =
     (case credentials of
        None \<Rightarrow> Inl (HTTP_401_UNAUTHORIZED ''Not authenticated'')
      | Some tok \<Rightarrow>
          (case verify_token k db now tok of
             None \<Rightarrow> Inl (HTTP_401_UNAUTHORIZED ''Invalid or expired token'')
           | Some payload \<Rightarrow> Inr payload))"

text \<open>
  The endpoint \<^verbatim>\<open>/logout\<close>: its dependency \<^verbatim>\<open>get_current_user\<close> runs first; the body
  returns its message and executes no statement.
\<close>

definition logout ::
    "codec \<Rightarrow> database \<Rightarrow> nat \<Rightarrow> string option \<Rightarrow> (http_error + string) \<times> database" where
  "logout k db now credentials =
     (case get_current_user k db now credentials of
        Inl err \<Rightarrow> (Inl err, db)
      | Inr current_user \<Rightarrow> (Inr ''Logged out successfully'', db))"

text \<open>The rows of the table \<^verbatim>\<open>tasks\<close> that belong to one owner, in the table's order.\<close>

definition rows_of :: "int \<Rightarrow> database \<Rightarrow> task_row list" where
  "rows_of uid db = filter (\<lambda>row. user_id row = uid) (tasks_table db)"

subsection \<open>Sample values\<close>

text \<open>
  A request environment and two databases on which the examples below run the model:
  Monday 3 June 2024, a date parser that knows the word \<^verbatim>\<open>tomorrow\<close> only, and a table
  with rows of the owners 1 and 2.
\<close>

definition sample_env :: env where
  "sample_env =
     \<lparr>today = \<lparr>year = 2024, month = 6, day = 3\<rparr>,
      current_timestamp = ''2024-06-03 10:00:00'',
      dateparser_parse =
        (\<lambda>text. if str_in ''tomorrow'' (lower text)
                 then Some \<lparr>year = 2024, month = 6, day = 4\<rparr> else None)\<rparr>"

text \<open>Two requests in the last week of the year 9999, on a Saturday and on a Monday.\<close>

definition last_saturday_env :: env where
  "last_saturday_env =
     \<lparr>today = \<lparr>year = 9999, month = 12, day = 25\<rparr>,
      current_timestamp = ''9999-12-25 10:00:00'',
      dateparser_parse = (\<lambda>text. None)\<rparr>"

definition last_monday_env :: env where
  "last_monday_env =
     \<lparr>today = \<lparr>year = 9999, month = 12, day = 27\<rparr>,
      current_timestamp = ''9999-12-27 10:00:00'',
      dateparser_parse = (\<lambda>text. None)\<rparr>"

definition empty_db :: database where
  "empty_db = \<lparr>tasks_table = [], tasks_seq = 0, tokens_table = []\<rparr>"

definition milk_row :: task_row where
  "milk_row =
     \<lparr>task_id = 1, content = ''Buy milk'', status = ''pending'', due_date = None,
      created_at = ''2024-06-01 08:00:00'', user_id = 1\<rparr>"

definition report_row :: task_row where
  "report_row =
     \<lparr>task_id = 2, content = ''Finish report'', status = ''pending'',
      due_date = Some ''2024-06-09'', created_at = ''2024-06-01 09:00:00'', user_id = 2\<rparr>"

definition bread_row :: task_row where
  "bread_row =
     \<lparr>task_id = 3, content = ''Bake bread with milk'', status = ''pending'', due_date = None,
      created_at = ''2024-06-02 08:00:00'', user_id = 1\<rparr>"

definition sample_db :: database where
  "sample_db = \<lparr>tasks_table = [milk_row, report_row, bread_row], tasks_seq = 3, tokens_table = []\<rparr>"

section \<open>Properties\<close>

subsection \<open>The queries and statements read and write one owner's rows\<close>

lemma select_pending_rows_of:
  "select_pending uid db = filter (\<lambda>row. status row = ''pending'') (rows_of uid db)"
  by (simp add: select_pending_def rows_of_def conj_commute)

lemma select_pending_sorted_rows_of:
  "select_pending_sorted uid db =
     sort_key (\<lambda>row. (due_date row, created_at row))
       (filter (\<lambda>row. status row = ''pending'') (rows_of uid db))"
  by (simp add: select_pending_sorted_def rows_of_def conj_commute)

lemma select_done_rows_of:
  "select_done uid db =
     rev (sort_key created_at (rev (filter (\<lambda>row. status row = ''done'') (rows_of uid db))))"
  by (simp add: select_done_def rows_of_def conj_commute)

lemma select_due_rows_of:
  "select_due uid due db =
     sort_key created_at
       (filter (\<lambda>row. due_date row = Some due \<and> status row = ''pending'') (rows_of uid db))"
  by (simp add: select_due_def rows_of_def conj_commute)

lemmas select_rows_of =
  select_pending_rows_of select_pending_sorted_rows_of select_done_rows_of select_due_rows_of

lemma fst_list_intent_rows_of:
  "rows_of uid db1 = rows_of uid db2 \<Longrightarrow>
   fst (list_intent e t uid db1) = fst (list_intent e t uid db2)"
  by (simp add: list_intent_def select_rows_of Let_def)

lemma fst_complete_intent_rows_of:
  "rows_of uid db1 = rows_of uid db2 \<Longrightarrow>
   fst (complete_intent t uid db1) = fst (complete_intent t uid db2)"
  by (simp add: complete_intent_def select_rows_of Let_def split: option.splits)

lemma fst_delete_intent_rows_of:
  "rows_of uid db1 = rows_of uid db2 \<Longrightarrow>
   fst (delete_intent t uid db1) = fst (delete_intent t uid db2)"
  by (simp add: delete_intent_def select_rows_of Let_def split: option.splits)

lemma fst_add_intent_any:
  "fst (add_intent e text uid db1) = fst (add_intent e text uid db2)"
  by (simp add: add_intent_def Let_def split: sum.splits)

lemma process_cases:
  "process_natural_language e text uid db = list_intent e (strip (lower text)) uid db \<and>
     spec_intent (strip (lower text)) = Intent_list \<or>
   process_natural_language e text uid db = complete_intent (strip (lower text)) uid db \<and>
     spec_intent (strip (lower text)) = Intent_complete \<or>
   process_natural_language e text uid db = delete_intent (strip (lower text)) uid db \<and>
     spec_intent (strip (lower text)) = Intent_delete \<or>
   process_natural_language e text uid db = add_intent e text uid db \<and>
     spec_intent (strip (lower text)) = Intent_add"
  unfolding process_natural_language_def spec_intent_def any_in_def str_in_def list_ex_iff Let_def
  by simp

lemma fst_process_rows_of:
  assumes "rows_of uid db1 = rows_of uid db2"
  shows "fst (process_natural_language e text uid db1) =
         fst (process_natural_language e text uid db2)"
proof -
  let ?t = "strip (lower text)"
  show ?thesis
  proof (cases "spec_intent ?t")
    case Intent_list
    with process_cases [of e "text" uid db1] process_cases [of e "text" uid db2]
    have "process_natural_language e text uid db1 = list_intent e ?t uid db1"
      "process_natural_language e text uid db2 = list_intent e ?t uid db2" by simp_all
    with fst_list_intent_rows_of [OF assms] show ?thesis by simp
  next
    case Intent_complete
    with process_cases [of e "text" uid db1] process_cases [of e "text" uid db2]
    have "process_natural_language e text uid db1 = complete_intent ?t uid db1"
      "process_natural_language e text uid db2 = complete_intent ?t uid db2" by simp_all
    with fst_complete_intent_rows_of [OF assms] show ?thesis by simp
  next
    case Intent_delete
    with process_cases [of e "text" uid db1] process_cases [of e "text" uid db2]
    have "process_natural_language e text uid db1 = delete_intent ?t uid db1"
      "process_natural_language e text uid db2 = delete_intent ?t uid db2" by simp_all
    with fst_delete_intent_rows_of [OF assms] show ?thesis by simp
  next
    case Intent_add
    with process_cases [of e "text" uid db1] process_cases [of e "text" uid db2]
    have "process_natural_language e text uid db1 = add_intent e text uid db1"
      "process_natural_language e text uid db2 = add_intent e text uid db2" by simp_all
    with fst_add_intent_any [of e "text" uid db1 db2] show ?thesis by simp
  qed
qed

lemma rows_of_update_done:
  "A \<noteq> B \<Longrightarrow> rows_of B (update_done i A db) = rows_of B db"
proof -
  have "filter (\<lambda>row. user_id row = B)
          (map (\<lambda>row. if task_id row = i \<and> user_id row = A then row\<lparr>status := ''done''\<rparr> else row) rs)
        = filter (\<lambda>row. user_id row = B) rs" if "A \<noteq> B" for rs
    using that by (induction rs) auto
  then show "A \<noteq> B \<Longrightarrow> ?thesis"
    by (simp add: rows_of_def update_done_def)
qed

lemma rows_of_delete_row:
  "A \<noteq> B \<Longrightarrow> rows_of B (delete_row i A db) = rows_of B db"
proof -
  have "filter (\<lambda>row. user_id row = B)
          (filter (\<lambda>row. \<not> (task_id row = i \<and> user_id row = A)) rs)
        = filter (\<lambda>row. user_id row = B) rs" if "A \<noteq> B" for rs
    using that by (induction rs) auto
  then show "A \<noteq> B \<Longrightarrow> ?thesis"
    by (simp add: rows_of_def delete_row_def)
qed

lemma rows_of_insert_task:
  "A \<noteq> B \<Longrightarrow> rows_of B (insert_task e A c due db) = rows_of B db"
  by (simp add: rows_of_def insert_task_def Let_def)

lemma snd_list_intent: "snd (list_intent e t uid db) = db"
  by (simp add: list_intent_def Let_def)

lemma snd_complete_intent:
  "snd (complete_intent t uid db) =
     (case find (task_matches t) (select_pending uid db) of
        None \<Rightarrow> db | Some m \<Rightarrow> update_done (task_id m) uid db)"
  by (simp add: complete_intent_def Let_def split: option.splits)

lemma snd_delete_intent:
  "snd (delete_intent t uid db) =
     (case find (task_matches t) (select_pending uid db) of
        None \<Rightarrow> db | Some m \<Rightarrow> delete_row (task_id m) uid db)"
  by (simp add: delete_intent_def Let_def split: option.splits)

lemma snd_add_intent:
  "snd (add_intent e text uid db) = db \<or>
   snd (add_intent e text uid db) =
     insert_task e uid (extract_task_content text) (projr (parse_date_from_text e text)) db"
  by (auto simp: add_intent_def Let_def split: sum.splits)

lemma rows_of_process_other:
  assumes "A \<noteq> B"
  shows "rows_of B (snd (process_natural_language e text A db)) = rows_of B db"
proof -
  have "rows_of B (snd (list_intent e t A db)) = rows_of B db" for t
    by (simp add: snd_list_intent)
  moreover have "rows_of B (snd (complete_intent t A db)) = rows_of B db" for t
    using assms by (simp add: snd_complete_intent rows_of_update_done split: option.splits)
  moreover have "rows_of B (snd (delete_intent t A db)) = rows_of B db" for t
    using assms by (simp add: snd_delete_intent rows_of_delete_row split: option.splits)
  moreover have "rows_of B (snd (add_intent e text A db)) = rows_of B db"
    using assms snd_add_intent [of e "text" A db] by (auto simp: rows_of_insert_task)
  ultimately show ?thesis
    by (simp add: process_natural_language_def Let_def)
qed

lemma set_select_pending: "set (select_pending uid db) \<subseteq> set (rows_of uid db)"
  by (auto simp: select_pending_def rows_of_def)

lemma set_select_pending_sorted: "set (select_pending_sorted uid db) \<subseteq> set (rows_of uid db)"
  by (auto simp: select_pending_sorted_def rows_of_def)

lemma set_select_done: "set (select_done uid db) \<subseteq> set (rows_of uid db)"
  by (auto simp: select_done_def rows_of_def)

lemma set_select_due: "set (select_due uid due db) \<subseteq> set (rows_of uid db)"
  by (auto simp: select_due_def rows_of_def)

lemma list_intent_shape:
  "\<exists>msg rows. set rows \<subseteq> set (rows_of uid db) \<and>
     list_intent e t uid db =
       (Inr \<lparr>message = msg, tasks = Some (map Task_of_row rows), action = ''list''\<rparr>, db)"
proof -
  define rows where "rows =
    (if str_in ''today'' t then select_due uid (strftime_ymd (today e)) db
     else if str_in ''done'' t \<or> str_in ''completed'' t then select_done uid db
     else select_pending_sorted uid db)"
  have sub: "set rows \<subseteq> set (rows_of uid db)"
    unfolding rows_def using set_select_due set_select_done set_select_pending_sorted by simp
  have "\<exists>msg. list_intent e t uid db =
       (Inr \<lparr>message = msg, tasks = Some (map Task_of_row rows), action = ''list''\<rparr>, db)"
    unfolding list_intent_def rows_def [symmetric] Let_def by (cases "rows = []") simp_all
  with sub show ?thesis by blast
qed

lemma tasks_list_intent:
  assumes "fst (list_intent e t uid db) = Inr resp" "tasks resp = Some ts"
  shows "set ts \<subseteq> Task_of_row ` set (rows_of uid db)"
proof -
  obtain msg rows where sub: "set rows \<subseteq> set (rows_of uid db)"
    and eq: "list_intent e t uid db =
       (Inr \<lparr>message = msg, tasks = Some (map Task_of_row rows), action = ''list''\<rparr>, db)"
    using list_intent_shape by blast
  from eq assms(1) have "resp = \<lparr>message = msg, tasks = Some (map Task_of_row rows), action = ''list''\<rparr>"
    by simp
  with assms(2) have "ts = map Task_of_row rows" by simp
  with sub show ?thesis by auto
qed

lemma tasks_complete_intent:
  assumes "fst (complete_intent t uid db) = Inr resp" "tasks resp = Some ts"
  shows "set ts \<subseteq> Task_of_row ` set (rows_of uid db)"
proof (cases "find (task_matches t) (select_pending uid db)")
  case None
  with assms have "ts = map Task_of_row (select_pending uid db)"
    by (auto simp: complete_intent_def Let_def)
  with set_select_pending [of uid db] show ?thesis by auto
next
  case (Some m)
  with assms show ?thesis by (auto simp: complete_intent_def Let_def)
qed

lemma tasks_delete_intent:
  assumes "fst (delete_intent t uid db) = Inr resp" "tasks resp = Some ts"
  shows "set ts \<subseteq> Task_of_row ` set (rows_of uid db)"
proof (cases "find (task_matches t) (select_pending uid db)")
  case None
  with assms have "ts = map Task_of_row (select_pending uid db)"
    by (auto simp: delete_intent_def Let_def)
  with set_select_pending [of uid db] show ?thesis by auto
next
  case (Some m)
  with assms show ?thesis by (auto simp: delete_intent_def Let_def)
qed

lemma tasks_add_intent:
  assumes "fst (add_intent e text uid db) = Inr resp"
  shows "tasks resp = None"
proof (cases "parse_date_from_text e text")
  case (Inl err)
  with assms show ?thesis by (simp add: add_intent_def Let_def)
next
  case (Inr due)
  show ?thesis
  proof (cases "strptime_ymd (the due)")
    case (Inl err)
    with Inr assms show ?thesis
      by (auto simp: add_intent_def Let_def split: if_splits)
  next
    case (Inr date_obj)
    with \<open>parse_date_from_text e text = Inr due\<close> assms show ?thesis
      by (auto simp: add_intent_def Let_def split: if_splits)
  qed
qed

lemma tasks_process:
  assumes "fst (process_natural_language e text uid db) = Inr resp" "tasks resp = Some ts"
  shows "set ts \<subseteq> Task_of_row ` set (rows_of uid db)"
proof -
  let ?t = "strip (lower text)"
  consider (l) "process_natural_language e text uid db = list_intent e ?t uid db"
    | (c) "process_natural_language e text uid db = complete_intent ?t uid db"
    | (d) "process_natural_language e text uid db = delete_intent ?t uid db"
    | (a) "process_natural_language e text uid db = add_intent e text uid db"
    using process_cases [of e "text" uid db] by blast
  then show ?thesis
  proof cases
    case l with assms show ?thesis by (simp add: tasks_list_intent)
  next
    case c with assms show ?thesis by (simp add: tasks_complete_intent)
  next
    case d with assms show ?thesis by (simp add: tasks_delete_intent)
  next
    case a with assms tasks_add_intent [of e "text" uid db resp] show ?thesis by simp
  qed
qed


subsection \<open>The first matching task, and the statement that changes it\<close>

lemma find_Some_split:
  "find P xs = Some m \<Longrightarrow> \<exists>pre post. xs = pre @ m # post \<and> P m \<and> (\<forall>x \<in> set pre. \<not> P x)"
proof (induction xs)
  case Nil
  then show ?case by simp
next
  case (Cons a xs)
  show ?case
  proof (cases "P a")
    case True
    with Cons.prems have "a = m" by simp
    with True have "a # xs = [] @ m # xs \<and> P m \<and> (\<forall>x \<in> set []. \<not> P x)" by simp
    then show ?thesis by blast
  next
    case False
    with Cons.prems have "find P xs = Some m" by simp
    then obtain pre post where "xs = pre @ m # post" "P m" "\<forall>x \<in> set pre. \<not> P x"
      using Cons.IH by blast
    with False have "a # xs = (a # pre) @ m # post \<and> P m \<and> (\<forall>x \<in> set (a # pre). \<not> P x)"
      by simp
    then show ?thesis by blast
  qed
qed

lemma task_matches_iff:
  "task_matches t row \<longleftrightarrow> (\<exists>w \<in> set (split (lower (content row))). 3 < length w \<and> sublist w t)"
  by (auto simp: task_matches_def any_in_def list_ex_iff str_in_def Let_def)

lemma update_done_members:
  assumes "m \<in> set (tasks_table db)" "user_id m = uid" "status m = ''pending''"
  shows "m\<lparr>status := ''done''\<rparr> \<in> set (tasks_table (update_done (task_id m) uid db))"
    and "m \<notin> set (tasks_table (update_done (task_id m) uid db))"
proof -
  let ?f = "\<lambda>row. if task_id row = task_id m \<and> user_id row = uid then row\<lparr>status := ''done''\<rparr> else row"
  have "?f m = m\<lparr>status := ''done''\<rparr>" using assms(2) by simp
  with assms(1) have "m\<lparr>status := ''done''\<rparr> \<in> ?f ` set (tasks_table db)"
    by (intro image_eqI [where x = m]) simp_all
  then show "m\<lparr>status := ''done''\<rparr> \<in> set (tasks_table (update_done (task_id m) uid db))"
    by (simp add: update_done_def)
  have "?f row \<noteq> m" for row
  proof (cases "task_id row = task_id m \<and> user_id row = uid")
    case True
    then have d: "status (?f row) = ''done''" by simp
    show ?thesis
    proof
      assume "?f row = m"
      then have "status (?f row) = status m" by (rule arg_cong)
      with d assms(3) show False by simp
    qed
  next
    case False
    then have "?f row = row" by (simp only: if_False)
    moreover have "row \<noteq> m"
    proof
      assume "row = m"
      with assms(2) False show False by simp
    qed
    ultimately show ?thesis by simp
  qed
  then have neq: "\<And>row. m \<noteq> ?f row" by (rule not_sym)
  show "m \<notin> set (tasks_table (update_done (task_id m) uid db))"
  proof
    assume "m \<in> set (tasks_table (update_done (task_id m) uid db))"
    then have "m \<in> ?f ` set (tasks_table db)" by (simp add: update_done_def)
    then obtain row where "m = ?f row" by (rule imageE)
    with neq show False by blast
  qed
qed

lemma delete_row_members:
  assumes "user_id m = uid"
  shows "m \<notin> set (tasks_table (delete_row (task_id m) uid db))"
  using assms by (simp add: delete_row_def)

lemma update_done_exact:
  assumes "distinct (map task_id (tasks_table db))" "tasks_table db = pre @ m # post" "user_id m = uid"
  shows "update_done (task_id m) uid db = db\<lparr>tasks_table := pre @ m\<lparr>status := ''done''\<rparr> # post\<rparr>"
proof -
  let ?f = "\<lambda>row. if task_id row = task_id m \<and> user_id row = uid then row\<lparr>status := ''done''\<rparr> else row"
  from assms(1,2) have "distinct (map task_id (pre @ m # post))" by simp
  then have "task_id m \<notin> task_id ` set pre" "task_id m \<notin> task_id ` set post"
    by auto
  then have "\<forall>x \<in> set pre. task_id x \<noteq> task_id m"
    "\<forall>x \<in> set post. task_id x \<noteq> task_id m"
    by (metis imageI)+
  then have "map ?f pre = pre" "map ?f post = post"
    by (auto intro!: map_idI)
  with assms(3) have "map ?f (pre @ m # post) = pre @ m\<lparr>status := ''done''\<rparr> # post" by simp
  with assms(2) show ?thesis by (simp add: update_done_def)
qed

lemma delete_row_exact:
  assumes "distinct (map task_id (tasks_table db))" "tasks_table db = pre @ m # post" "user_id m = uid"
  shows "delete_row (task_id m) uid db = db\<lparr>tasks_table := pre @ post\<rparr>"
proof -
  let ?P = "\<lambda>row. \<not> (task_id row = task_id m \<and> user_id row = uid)"
  from assms(1,2) have "distinct (map task_id (pre @ m # post))" by simp
  then have "task_id m \<notin> task_id ` set pre" "task_id m \<notin> task_id ` set post"
    by auto
  then have "\<forall>x \<in> set pre. task_id x \<noteq> task_id m"
    "\<forall>x \<in> set post. task_id x \<noteq> task_id m"
    by (metis imageI)+
  then have "filter ?P pre = pre" "filter ?P post = post"
    by (auto simp: filter_id_conv)
  with assms(3) have "filter ?P (pre @ m # post) = pre @ post" by simp
  with assms(2) show ?thesis by (simp add: delete_row_def)
qed

lemma select_pending_member:
  "m \<in> set (select_pending uid db) \<longleftrightarrow>
     m \<in> set (tasks_table db) \<and> user_id m = uid \<and> status m = ''pending''"
  by (auto simp: select_pending_def)

lemma complete_intent_Some:
  "find (task_matches t) (select_pending uid db) = Some m \<Longrightarrow>
   complete_intent t uid db =
     (Inr \<lparr>message = ''Great job! Marked '' @ apostrophe @ content m @ apostrophe @ '' as done!'',
           tasks = None, action = ''complete''\<rparr>,
      update_done (task_id m) uid db)"
  by (simp add: complete_intent_def Let_def)

lemma complete_intent_None:
  "find (task_matches t) (select_pending uid db) = None \<Longrightarrow>
   complete_intent t uid db =
     (Inr \<lparr>message = ''I couldn't find that task. Here are your pending tasks:'',
           tasks = Some (map Task_of_row (select_pending uid db)), action = ''list''\<rparr>, db)"
  by (simp add: complete_intent_def Let_def)

lemma delete_intent_Some:
  "find (task_matches t) (select_pending uid db) = Some m \<Longrightarrow>
   delete_intent t uid db =
     (Inr \<lparr>message = ''Deleted task: '' @ apostrophe @ content m @ apostrophe,
           tasks = None, action = ''delete''\<rparr>,
      delete_row (task_id m) uid db)"
  by (simp add: delete_intent_def Let_def)

lemma delete_intent_None:
  "find (task_matches t) (select_pending uid db) = None \<Longrightarrow>
   delete_intent t uid db =
     (Inr \<lparr>message = ''I couldn't find that task to delete. Here are your tasks:'',
           tasks = Some (map Task_of_row (select_pending uid db)), action = ''list''\<rparr>, db)"
  by (simp add: delete_intent_def Let_def)

lemma process_complete:
  "spec_intent (strip (lower text)) = Intent_complete \<Longrightarrow>
   process_natural_language e text uid db = complete_intent (strip (lower text)) uid db"
  using process_cases [of e "text" uid db] by auto

lemma process_delete:
  "spec_intent (strip (lower text)) = Intent_delete \<Longrightarrow>
   process_natural_language e text uid db = delete_intent (strip (lower text)) uid db"
  using process_cases [of e "text" uid db] by auto

lemma process_add:
  "spec_intent (strip (lower text)) = Intent_add \<Longrightarrow>
   process_natural_language e text uid db = add_intent e text uid db"
  using process_cases [of e "text" uid db] by auto

lemma process_list:
  "spec_intent (strip (lower text)) = Intent_list \<Longrightarrow>
   process_natural_language e text uid db = list_intent e (strip (lower text)) uid db"
  using process_cases [of e "text" uid db] by auto

subsection \<open>Owner isolation\<close>

text \<open>
  C1. A call of \<^verbatim>\<open>process_natural_language\<close> for the owner \<open>A\<close>, on any text, leaves the
  rows of every other owner \<open>B\<close> exactly as they were: none is changed, deleted or
  added. Every task it returns is the image of a row of \<open>A\<close>, so (ids being unique) no
  row of \<open>B\<close> is returned; and its response is the same on any two databases that
  hold the same rows of \<open>A\<close>, so it reads nothing else.
\<close>

theorem owner_isolation:
  assumes "A \<noteq> B"
  shows "rows_of B (snd (process_natural_language e text A db)) = rows_of B db \<and>
    (\<forall>resp ts. fst (process_natural_language e text A db) = Inr resp \<and> tasks resp = Some ts \<longrightarrow>
       set ts \<subseteq> Task_of_row ` set (rows_of A db) \<and>
       (distinct (map task_id (tasks_table db)) \<longrightarrow>
          (\<forall>row \<in> set (rows_of B db). task_id row \<notin> task_id ` set ts))) \<and>
    (\<forall>db'. rows_of A db' = rows_of A db \<longrightarrow>
       fst (process_natural_language e text A db') = fst (process_natural_language e text A db))"
proof (intro conjI allI impI)
  show "rows_of B (snd (process_natural_language e text A db)) = rows_of B db"
    using assms by (rule rows_of_process_other)
next
  fix resp ts
  assume "fst (process_natural_language e text A db) = Inr resp \<and> tasks resp = Some ts"
  then show "set ts \<subseteq> Task_of_row ` set (rows_of A db)"
    using tasks_process by blast
next
  fix resp ts
  assume r: "fst (process_natural_language e text A db) = Inr resp \<and> tasks resp = Some ts"
    and d: "distinct (map task_id (tasks_table db))"
  have sub: "set ts \<subseteq> Task_of_row ` set (rows_of A db)"
    using r tasks_process by blast
  show "\<forall>row \<in> set (rows_of B db). task_id row \<notin> task_id ` set ts"
  proof
    fix row
    assume b: "row \<in> set (rows_of B db)"
    show "task_id row \<notin> task_id ` set ts"
    proof
      assume "task_id row \<in> task_id ` set ts"
      then obtain t where t: "t \<in> set ts" "task_id row = task_id t" by (rule imageE)
      with sub obtain own where own: "own \<in> set (rows_of A db)" "t = Task_of_row own" by blast
      from own(2) have "task_id t = task_id own" by (simp add: Task_of_row_def)
      with t(2) have same: "task_id row = task_id own" by simp
      from b own(1) have mem: "row \<in> set (tasks_table db)" "own \<in> set (tasks_table db)"
        and users: "user_id row = B" "user_id own = A"
        by (simp_all add: rows_of_def)
      from d have "inj_on task_id (set (tasks_table db))" by (simp add: distinct_map)
      from this same mem have "row = own" by (rule inj_onD)
      with users assms show False by simp
    qed
  qed
next
  fix db'
  assume "rows_of A db' = rows_of A db"
  then show "fst (process_natural_language e text A db') = fst (process_natural_language e text A db)"
    by (rule fst_process_rows_of)
qed

theorem owner_isolation_witness:
  "(1::int) \<noteq> 2 \<and>
   rows_of 2 (snd (process_natural_language sample_env ''cancel the milk'' 1 sample_db)) =
     rows_of 2 sample_db \<and>
   rows_of 2 sample_db = [report_row] \<and>
   tasks_table (snd (process_natural_language sample_env ''cancel the milk'' 1 sample_db)) =
     [report_row, bread_row]"
proof -
  have ne: "(1::int) \<noteq> 2" by simp
  have own: "rows_of 2 sample_db = [report_row]" by code_simp
  have after: "tasks_table (snd (process_natural_language sample_env ''cancel the milk'' 1 sample_db)) =
     [report_row, bread_row]" by code_simp
  from owner_isolation [OF ne, of sample_env "''cancel the milk''" sample_db]
  have "rows_of 2 (snd (process_natural_language sample_env ''cancel the milk'' 1 sample_db)) =
     rows_of 2 sample_db" by (rule conjunct1)
  with ne own after show ?thesis by (intro conjI)
qed

subsection \<open>Completing and deleting the first matching task\<close>

text \<open>
  C3. For a text classified as \<open>complete\<close> or \<open>delete\<close>, the resolver takes the owner's
  pending rows in the table's order. A row is named by the text when one of the words
  of its lower-cased content is longer than 3 characters and occurs in the text. If some
  row is named, the first such row \<open>m\<close> is the match, and the response is the confirmation
  message with the content of \<open>m\<close> and the action \<open>complete\<close> (or \<open>delete\<close>). After
  \<open>complete\<close> the table is the old one with the status \<open>done\<close> in the rows that have the id
  of \<open>m\<close> and the owner, \<open>m\<close> among them. After \<open>delete\<close> the table is the old one without
  the rows that have the id of \<open>m\<close> and the owner, so no such row remains. If no row is
  named, the database is returned as it was, with the apology message, the whole pending
  list and the action \<open>list\<close>.
\<close>

theorem complete_delete_first_match:
  fixes input :: string and uid :: int and db :: database
  defines "t \<equiv> strip (lower input)"
  defines "pending \<equiv> filter (\<lambda>row. user_id row = uid \<and> status row = ''pending'') (tasks_table db)"
  defines "named \<equiv> \<lambda>row. \<exists>w \<in> set (split (lower (content row))). 3 < length w \<and> sublist w t"
  shows
   "(spec_intent t = Intent_complete \<longrightarrow>
      (\<exists>pre m post. pending = pre @ m # post \<and> (\<forall>x \<in> set pre. \<not> named x) \<and> named m \<and>
         fst (process_natural_language e input uid db) =
           Inr \<lparr>message = ''Great job! Marked '' @ apostrophe @ content m @ apostrophe @ '' as done!'',
                tasks = None, action = ''complete''\<rparr> \<and>
         snd (process_natural_language e input uid db) =
           db\<lparr>tasks_table :=
                map (\<lambda>row. if task_id row = task_id m \<and> user_id row = uid
                           then row\<lparr>status := ''done''\<rparr> else row)
                  (tasks_table db)\<rparr> \<and>
         m\<lparr>status := ''done''\<rparr> \<in> set (tasks_table (snd (process_natural_language e input uid db))) \<and>
         m \<notin> set (tasks_table (snd (process_natural_language e input uid db)))) \<or>
      ((\<forall>x \<in> set pending. \<not> named x) \<and>
         process_natural_language e input uid db =
           (Inr \<lparr>message = ''I couldn't find that task. Here are your pending tasks:'',
                 tasks = Some (map Task_of_row pending), action = ''list''\<rparr>, db))) \<and>
    (spec_intent t = Intent_delete \<longrightarrow>
      (\<exists>pre m post. pending = pre @ m # post \<and> (\<forall>x \<in> set pre. \<not> named x) \<and> named m \<and>
         fst (process_natural_language e input uid db) =
           Inr \<lparr>message = ''Deleted task: '' @ apostrophe @ content m @ apostrophe,
                tasks = None, action = ''delete''\<rparr> \<and>
         snd (process_natural_language e input uid db) =
           db\<lparr>tasks_table :=
                filter (\<lambda>row. \<not> (task_id row = task_id m \<and> user_id row = uid)) (tasks_table db)\<rparr> \<and>
         (\<forall>row \<in> set (tasks_table (snd (process_natural_language e input uid db))).
            \<not> (task_id row = task_id m \<and> user_id row = uid)) \<and>
         m \<notin> set (tasks_table (snd (process_natural_language e input uid db)))) \<or>
      ((\<forall>x \<in> set pending. \<not> named x) \<and>
         process_natural_language e input uid db =
           (Inr \<lparr>message = ''I couldn't find that task to delete. Here are your tasks:'',
                 tasks = Some (map Task_of_row pending), action = ''list''\<rparr>, db)))"
proof -
  let ?r = "process_natural_language e input uid db"
  have pending: "pending = select_pending uid db"
    by (simp add: pending_def select_pending_def)
  have named: "named = task_matches t"
    by (simp add: named_def task_matches_iff fun_eq_iff)
  have none: "\<forall>x \<in> set pending. \<not> named x"
    if "find (task_matches t) (select_pending uid db) = None"
    using that by (simp add: find_None_iff pending named)
  have some: "\<exists>pre post. pending = pre @ m # post \<and> (\<forall>x \<in> set pre. \<not> named x) \<and> named m \<and>
      m \<in> set (tasks_table db) \<and> user_id m = uid \<and> status m = ''pending''"
    if f: "find (task_matches t) (select_pending uid db) = Some m" for m
  proof -
    from find_Some_split [OF f] obtain pre post where
      "select_pending uid db = pre @ m # post" "task_matches t m" "\<forall>x \<in> set pre. \<not> task_matches t x"
      by blast
    then have split: "pending = pre @ m # post" "named m" "\<forall>x \<in> set pre. \<not> named x"
      by (simp_all add: pending named)
    from split(1) have "m \<in> set (select_pending uid db)" by (simp add: pending)
    then have "m \<in> set (tasks_table db)" "user_id m = uid" "status m = ''pending''"
      by (simp_all add: select_pending_member)
    with split show ?thesis by blast
  qed
  show ?thesis
  proof (intro conjI impI)
    assume "spec_intent t = Intent_complete"
    then have r: "?r = complete_intent t uid db"
      unfolding t_def by (rule process_complete)
    show "(\<exists>pre m post. pending = pre @ m # post \<and> (\<forall>x \<in> set pre. \<not> named x) \<and> named m \<and>
         fst ?r =
           Inr \<lparr>message = ''Great job! Marked '' @ apostrophe @ content m @ apostrophe @ '' as done!'',
                tasks = None, action = ''complete''\<rparr> \<and>
         snd ?r =
           db\<lparr>tasks_table :=
                map (\<lambda>row. if task_id row = task_id m \<and> user_id row = uid
                           then row\<lparr>status := ''done''\<rparr> else row)
                  (tasks_table db)\<rparr> \<and>
         m\<lparr>status := ''done''\<rparr> \<in> set (tasks_table (snd ?r)) \<and>
         m \<notin> set (tasks_table (snd ?r))) \<or>
      ((\<forall>x \<in> set pending. \<not> named x) \<and>
         ?r =
           (Inr \<lparr>message = ''I couldn't find that task. Here are your pending tasks:'',
                 tasks = Some (map Task_of_row pending), action = ''list''\<rparr>, db))"
    proof (cases "find (task_matches t) (select_pending uid db)")
      case None
      have "?r = (Inr \<lparr>message = ''I couldn't find that task. Here are your pending tasks:'',
                 tasks = Some (map Task_of_row pending), action = ''list''\<rparr>, db)"
        unfolding r pending using None by (rule complete_intent_None)
      with none [OF None] show ?thesis by (intro disjI2 conjI)
    next
      case (Some m)
      from some [OF Some] obtain pre post where split: "pending = pre @ m # post"
        "\<forall>x \<in> set pre. \<not> named x" "named m"
        and m: "m \<in> set (tasks_table db)" "user_id m = uid" "status m = ''pending''" by blast
      have eq: "?r = (Inr \<lparr>message = ''Great job! Marked '' @ apostrophe @ content m @ apostrophe @ '' as done!'',
           tasks = None, action = ''complete''\<rparr>, update_done (task_id m) uid db)"
        unfolding r using Some by (rule complete_intent_Some)
      have "fst ?r = Inr \<lparr>message = ''Great job! Marked '' @ apostrophe @ content m @ apostrophe @ '' as done!'',
           tasks = None, action = ''complete''\<rparr>"
        and "snd ?r =
           db\<lparr>tasks_table :=
                map (\<lambda>row. if task_id row = task_id m \<and> user_id row = uid
                           then row\<lparr>status := ''done''\<rparr> else row)
                  (tasks_table db)\<rparr>"
        and "m\<lparr>status := ''done''\<rparr> \<in> set (tasks_table (snd ?r))"
        and "m \<notin> set (tasks_table (snd ?r))"
        unfolding eq fst_conv snd_conv
        by (rule refl, rule update_done_def) (rule update_done_members [OF m])+
      with split show ?thesis by (intro disjI1 exI [of _ pre] exI [of _ m] exI [of _ post] conjI)
    qed
  next
    assume "spec_intent t = Intent_delete"
    then have r: "?r = delete_intent t uid db"
      unfolding t_def by (rule process_delete)
    show "(\<exists>pre m post. pending = pre @ m # post \<and> (\<forall>x \<in> set pre. \<not> named x) \<and> named m \<and>
         fst ?r =
           Inr \<lparr>message = ''Deleted task: '' @ apostrophe @ content m @ apostrophe,
                tasks = None, action = ''delete''\<rparr> \<and>
         snd ?r =
           db\<lparr>tasks_table :=
                filter (\<lambda>row. \<not> (task_id row = task_id m \<and> user_id row = uid)) (tasks_table db)\<rparr> \<and>
         (\<forall>row \<in> set (tasks_table (snd ?r)). \<not> (task_id row = task_id m \<and> user_id row = uid)) \<and>
         m \<notin> set (tasks_table (snd ?r))) \<or>
      ((\<forall>x \<in> set pending. \<not> named x) \<and>
         ?r =
           (Inr \<lparr>message = ''I couldn't find that task to delete. Here are your tasks:'',
                 tasks = Some (map Task_of_row pending), action = ''list''\<rparr>, db))"
    proof (cases "find (task_matches t) (select_pending uid db)")
      case None
      have "?r = (Inr \<lparr>message = ''I couldn't find that task to delete. Here are your tasks:'',
                 tasks = Some (map Task_of_row pending), action = ''list''\<rparr>, db)"
        unfolding r pending using None by (rule delete_intent_None)
      with none [OF None] show ?thesis by (intro disjI2 conjI)
    next
      case (Some m)
      from some [OF Some] obtain pre post where split: "pending = pre @ m # post"
        "\<forall>x \<in> set pre. \<not> named x" "named m"
        and m: "m \<in> set (tasks_table db)" "user_id m = uid" "status m = ''pending''" by blast
      have eq: "?r = (Inr \<lparr>message = ''Deleted task: '' @ apostrophe @ content m @ apostrophe,
           tasks = None, action = ''delete''\<rparr>, delete_row (task_id m) uid db)"
        unfolding r using Some by (rule delete_intent_Some)
      have gone: "\<forall>row \<in> set (tasks_table (delete_row (task_id m) uid db)).
          \<not> (task_id row = task_id m \<and> user_id row = uid)"
        by (simp add: delete_row_def)
      have "fst ?r = Inr \<lparr>message = ''Deleted task: '' @ apostrophe @ content m @ apostrophe,
           tasks = None, action = ''delete''\<rparr>"
        and "snd ?r =
           db\<lparr>tasks_table :=
                filter (\<lambda>row. \<not> (task_id row = task_id m \<and> user_id row = uid)) (tasks_table db)\<rparr>"
        and "\<forall>row \<in> set (tasks_table (snd ?r)). \<not> (task_id row = task_id m \<and> user_id row = uid)"
        and "m \<notin> set (tasks_table (snd ?r))"
        unfolding eq fst_conv snd_conv
        by (rule refl, rule delete_row_def, rule gone, rule delete_row_members [OF m(2)])
      with split show ?thesis by (intro disjI1 exI [of _ pre] exI [of _ m] exI [of _ post] conjI)
    qed
  qed
qed

theorem complete_delete_first_match_witness:
  "(spec_intent (strip (lower ''The milk is DONE'')) = Intent_complete \<and>
    filter (\<lambda>row. user_id row = 1 \<and> status row = ''pending'') (tasks_table sample_db) =
      [] @ milk_row # [bread_row] \<and>
    fst (process_natural_language sample_env ''The milk is DONE'' 1 sample_db) =
      Inr \<lparr>message = ''Great job! Marked '' @ apostrophe @ content milk_row @ apostrophe @ '' as done!'',
           tasks = None, action = ''complete''\<rparr> \<and>
    tasks_table (snd (process_natural_language sample_env ''The milk is DONE'' 1 sample_db)) =
      [milk_row\<lparr>status := ''done''\<rparr>, report_row, bread_row] \<and>
    (\<exists>pre m post.
       filter (\<lambda>row. user_id row = 1 \<and> status row = ''pending'') (tasks_table sample_db) =
         pre @ m # post \<and>
       snd (process_natural_language sample_env ''The milk is DONE'' 1 sample_db) =
         sample_db\<lparr>tasks_table :=
           map (\<lambda>row. if task_id row = task_id m \<and> user_id row = 1
                      then row\<lparr>status := ''done''\<rparr> else row)
             (tasks_table sample_db)\<rparr> \<and>
       m\<lparr>status := ''done''\<rparr>
         \<in> set (tasks_table (snd (process_natural_language sample_env ''The milk is DONE'' 1 sample_db))) \<and>
       m \<notin> set (tasks_table (snd (process_natural_language sample_env ''The milk is DONE'' 1 sample_db))))) \<and>
   (spec_intent (strip (lower ''remove the bread task'')) = Intent_delete \<and>
    filter (\<lambda>row. user_id row = 1 \<and> status row = ''pending'') (tasks_table sample_db) =
      [milk_row] @ bread_row # [] \<and>
    fst (process_natural_language sample_env ''remove the bread task'' 1 sample_db) =
      Inr \<lparr>message = ''Deleted task: '' @ apostrophe @ content bread_row @ apostrophe,
           tasks = None, action = ''delete''\<rparr> \<and>
    tasks_table (snd (process_natural_language sample_env ''remove the bread task'' 1 sample_db)) =
      [milk_row, report_row] \<and>
    (\<exists>pre m post.
       filter (\<lambda>row. user_id row = 1 \<and> status row = ''pending'') (tasks_table sample_db) =
         pre @ m # post \<and>
       snd (process_natural_language sample_env ''remove the bread task'' 1 sample_db) =
         sample_db\<lparr>tasks_table :=
           filter (\<lambda>row. \<not> (task_id row = task_id m \<and> user_id row = 1)) (tasks_table sample_db)\<rparr> \<and>
       (\<forall>row \<in> set (tasks_table
            (snd (process_natural_language sample_env ''remove the bread task'' 1 sample_db))).
          \<not> (task_id row = task_id m \<and> user_id row = 1)) \<and>
       m \<notin> set (tasks_table
          (snd (process_natural_language sample_env ''remove the bread task'' 1 sample_db))))) \<and>
   (spec_intent (strip (lower ''the laundry is done'')) = Intent_complete \<and>
    process_natural_language sample_env ''the laundry is done'' 1 sample_db =
      (Inr \<lparr>message = ''I couldn't find that task. Here are your pending tasks:'',
            tasks = Some (map Task_of_row [milk_row, bread_row]), action = ''list''\<rparr>, sample_db))"
proof -
  let ?c = "process_natural_language sample_env ''The milk is DONE'' 1 sample_db"
  let ?d = "process_natural_language sample_env ''remove the bread task'' 1 sample_db"
  let ?n = "process_natural_language sample_env ''the laundry is done'' 1 sample_db"
  let ?pending = "filter (\<lambda>row. user_id row = 1 \<and> status row = ''pending'') (tasks_table sample_db)"
  have ic: "spec_intent (strip (lower ''The milk is DONE'')) = Intent_complete"
    by code_simp
  have pc: "?pending = [] @ milk_row # [bread_row]"
    by code_simp
  have fc: "fst ?c =
     Inr \<lparr>message = ''Great job! Marked '' @ apostrophe @ content milk_row @ apostrophe @ '' as done!'',
          tasks = None, action = ''complete''\<rparr>"
    by code_simp
  have tc: "tasks_table (snd ?c) = [milk_row\<lparr>status := ''done''\<rparr>, report_row, bread_row]"
    by code_simp
  have ac: "action (projr (fst ?c)) \<noteq> ''list''"
    unfolding fc by simp
  have nc: "?c \<noteq> (Inr \<lparr>message = ''I couldn't find that task. Here are your pending tasks:'',
        tasks = Some (map Task_of_row ?pending), action = ''list''\<rparr>, sample_db)"
  proof
    assume "?c = (Inr \<lparr>message = ''I couldn't find that task. Here are your pending tasks:'',
        tasks = Some (map Task_of_row ?pending), action = ''list''\<rparr>, sample_db)"
    then have "action (projr (fst ?c)) = ''list''" by simp
    with ac show False by contradiction
  qed
  from complete_delete_first_match [of "''The milk is DONE''" 1 sample_db sample_env]
  have "spec_intent (strip (lower ''The milk is DONE'')) = Intent_complete \<longrightarrow>
      (\<exists>pre m post. ?pending = pre @ m # post \<and>
         (\<forall>x \<in> set pre. \<not> (\<exists>w \<in> set (split (lower (content x))).
            3 < length w \<and> sublist w (strip (lower ''The milk is DONE'')))) \<and>
         (\<exists>w \<in> set (split (lower (content m))).
            3 < length w \<and> sublist w (strip (lower ''The milk is DONE''))) \<and>
         fst ?c =
           Inr \<lparr>message = ''Great job! Marked '' @ apostrophe @ content m @ apostrophe @ '' as done!'',
                tasks = None, action = ''complete''\<rparr> \<and>
         snd ?c =
           sample_db\<lparr>tasks_table :=
                map (\<lambda>row. if task_id row = task_id m \<and> user_id row = 1
                           then row\<lparr>status := ''done''\<rparr> else row)
                  (tasks_table sample_db)\<rparr> \<and>
         m\<lparr>status := ''done''\<rparr> \<in> set (tasks_table (snd ?c)) \<and>
         m \<notin> set (tasks_table (snd ?c))) \<or>
      ((\<forall>x \<in> set ?pending. \<not> (\<exists>w \<in> set (split (lower (content x))).
            3 < length w \<and> sublist w (strip (lower ''The milk is DONE'')))) \<and>
         ?c =
           (Inr \<lparr>message = ''I couldn't find that task. Here are your pending tasks:'',
                 tasks = Some (map Task_of_row ?pending), action = ''list''\<rparr>, sample_db))"
    by (rule conjunct1)
  with ic nc have ec: "\<exists>pre m post. ?pending = pre @ m # post \<and>
       snd ?c =
         sample_db\<lparr>tasks_table :=
           map (\<lambda>row. if task_id row = task_id m \<and> user_id row = 1
                      then row\<lparr>status := ''done''\<rparr> else row)
             (tasks_table sample_db)\<rparr> \<and>
       m\<lparr>status := ''done''\<rparr> \<in> set (tasks_table (snd ?c)) \<and>
       m \<notin> set (tasks_table (snd ?c))"
    by blast
  have idl: "spec_intent (strip (lower ''remove the bread task'')) = Intent_delete"
    by code_simp
  have pd: "?pending = [milk_row] @ bread_row # []"
    by code_simp
  have fd: "fst ?d =
     Inr \<lparr>message = ''Deleted task: '' @ apostrophe @ content bread_row @ apostrophe,
          tasks = None, action = ''delete''\<rparr>"
    by code_simp
  have td: "tasks_table (snd ?d) = [milk_row, report_row]"
    by code_simp
  have ad: "action (projr (fst ?d)) \<noteq> ''list''"
    unfolding fd by simp
  have nd: "?d \<noteq> (Inr \<lparr>message = ''I couldn't find that task to delete. Here are your tasks:'',
        tasks = Some (map Task_of_row ?pending), action = ''list''\<rparr>, sample_db)"
  proof
    assume "?d = (Inr \<lparr>message = ''I couldn't find that task to delete. Here are your tasks:'',
        tasks = Some (map Task_of_row ?pending), action = ''list''\<rparr>, sample_db)"
    then have "action (projr (fst ?d)) = ''list''" by simp
    with ad show False by contradiction
  qed
  from complete_delete_first_match [of "''remove the bread task''" 1 sample_db sample_env]
  have "spec_intent (strip (lower ''remove the bread task'')) = Intent_delete \<longrightarrow>
      (\<exists>pre m post. ?pending = pre @ m # post \<and>
         (\<forall>x \<in> set pre. \<not> (\<exists>w \<in> set (split (lower (content x))).
            3 < length w \<and> sublist w (strip (lower ''remove the bread task'')))) \<and>
         (\<exists>w \<in> set (split (lower (content m))).
            3 < length w \<and> sublist w (strip (lower ''remove the bread task''))) \<and>
         fst ?d =
           Inr \<lparr>message = ''Deleted task: '' @ apostrophe @ content m @ apostrophe,
                tasks = None, action = ''delete''\<rparr> \<and>
         snd ?d =
           sample_db\<lparr>tasks_table :=
                filter (\<lambda>row. \<not> (task_id row = task_id m \<and> user_id row = 1)) (tasks_table sample_db)\<rparr> \<and>
         (\<forall>row \<in> set (tasks_table (snd ?d)). \<not> (task_id row = task_id m \<and> user_id row = 1)) \<and>
         m \<notin> set (tasks_table (snd ?d))) \<or>
      ((\<forall>x \<in> set ?pending. \<not> (\<exists>w \<in> set (split (lower (content x))).
            3 < length w \<and> sublist w (strip (lower ''remove the bread task'')))) \<and>
         ?d =
           (Inr \<lparr>message = ''I couldn't find that task to delete. Here are your tasks:'',
                 tasks = Some (map Task_of_row ?pending), action = ''list''\<rparr>, sample_db))"
    by (rule conjunct2)
  with idl nd have ed: "\<exists>pre m post. ?pending = pre @ m # post \<and>
       snd ?d =
         sample_db\<lparr>tasks_table :=
           filter (\<lambda>row. \<not> (task_id row = task_id m \<and> user_id row = 1)) (tasks_table sample_db)\<rparr> \<and>
       (\<forall>row \<in> set (tasks_table (snd ?d)). \<not> (task_id row = task_id m \<and> user_id row = 1)) \<and>
       m \<notin> set (tasks_table (snd ?d))"
    by blast
  have "in": "spec_intent (strip (lower ''the laundry is done'')) = Intent_complete"
    by code_simp
  have fn: "?n =
      (Inr \<lparr>message = ''I couldn't find that task. Here are your pending tasks:'',
            tasks = Some (map Task_of_row [milk_row, bread_row]), action = ''list''\<rparr>, sample_db)"
    by code_simp
  from ic pc fc tc ec idl pd fd td ed "in" fn show ?thesis by (intro conjI)
qed

subsection \<open>The ids of the table stay unique\<close>

lemma foldr_max_upper: "x \<in> set xs \<Longrightarrow> x \<le> foldr max xs (s :: int)"
  by (induction xs) auto

lemma insert_task_ids:
  assumes "distinct (map task_id (tasks_table db))"
  shows "distinct (map task_id (tasks_table (insert_task e uid c due db)))"
proof -
  let ?new = "foldr max (map task_id (tasks_table db)) (tasks_seq db) + 1"
  have "?new \<notin> set (map task_id (tasks_table db))"
  proof
    assume "?new \<in> set (map task_id (tasks_table db))"
    then have "?new \<le> foldr max (map task_id (tasks_table db)) (tasks_seq db)"
      by (rule foldr_max_upper)
    then show False by simp
  qed
  with assms show ?thesis
    by (simp add: insert_task_def Let_def)
qed

lemma update_done_ids:
  "map task_id (tasks_table (update_done i uid db)) = map task_id (tasks_table db)"
proof -
  have "map task_id (map (\<lambda>row. if task_id row = i \<and> user_id row = uid then row\<lparr>status := ''done''\<rparr> else row) rs)
      = map task_id rs" for rs
    by (induction rs) simp_all
  then show ?thesis by (simp add: update_done_def)
qed

lemma delete_row_ids:
  "distinct (map task_id (tasks_table db)) \<Longrightarrow>
   distinct (map task_id (tasks_table (delete_row i uid db)))"
  by (simp add: delete_row_def distinct_map_filter)

lemma process_keeps_ids_unique:
  assumes "distinct (map task_id (tasks_table db))"
  shows "distinct (map task_id (tasks_table (snd (process_natural_language e text uid db))))"
proof -
  let ?t = "strip (lower text)"
  have l: "distinct (map task_id (tasks_table (snd (list_intent e ?t uid db))))"
    using assms by (simp add: snd_list_intent)
  have c: "distinct (map task_id (tasks_table (snd (complete_intent ?t uid db))))"
    using assms by (simp add: snd_complete_intent update_done_ids split: option.splits)
  have d: "distinct (map task_id (tasks_table (snd (delete_intent ?t uid db))))"
    using assms by (simp add: snd_delete_intent delete_row_ids split: option.splits)
  have a: "distinct (map task_id (tasks_table (snd (add_intent e text uid db))))"
    using snd_add_intent [of e "text" uid db] assms insert_task_ids [OF assms] by metis
  from process_cases [of e "text" uid db] l c d a show ?thesis by metis
qed

subsection \<open>The frame of completing and deleting\<close>

text \<open>
  C4. The ids of the table being unique (the column is its primary key), take a text
  classified as \<open>complete\<close> or \<open>delete\<close>. If the scan of the owner's pending rows finds the
  match \<open>m\<close>, the table splits around \<open>m\<close> as \<open>pre @ m # post\<close>, and the call commits one
  change: for \<open>complete\<close> the action is \<open>complete\<close> and the new table is
  \<open>pre @ m\<lparr>status := ''done''\<rparr> # post\<close>; for \<open>delete\<close> the action is \<open>delete\<close> and the new
  table is \<open>pre @ post\<close>. Every other row, of every owner, keeps its place and its
  fields, and the rest of the database is as it was. If the scan finds no match, the
  action is \<open>list\<close> and the database is returned as it was.
\<close>

theorem complete_delete_frame:
  fixes input :: string and uid :: int and db :: database and e :: env
  defines "t \<equiv> strip (lower input)"
  defines "r \<equiv> process_natural_language e input uid db"
  assumes ids: "distinct (map task_id (tasks_table db))"
    and intent: "spec_intent t = Intent_complete \<or> spec_intent t = Intent_delete"
  shows
   "(\<forall>m. find (task_matches t) (select_pending uid db) = Some m \<longrightarrow>
       (\<exists>pre post. tasks_table db = pre @ m # post \<and> user_id m = uid \<and> status m = ''pending'' \<and>
          (spec_intent t = Intent_complete \<longrightarrow>
             (\<exists>resp. fst r = Inr resp \<and> action resp = ''complete'') \<and>
             snd r = db\<lparr>tasks_table := pre @ m\<lparr>status := ''done''\<rparr> # post\<rparr>) \<and>
          (spec_intent t = Intent_delete \<longrightarrow>
             (\<exists>resp. fst r = Inr resp \<and> action resp = ''delete'') \<and>
             snd r = db\<lparr>tasks_table := pre @ post\<rparr>))) \<and>
    (find (task_matches t) (select_pending uid db) = None \<longrightarrow>
       (\<exists>resp. fst r = Inr resp \<and> action resp = ''list'') \<and> snd r = db)"
proof (intro conjI allI impI)
  fix m
  assume Some: "find (task_matches t) (select_pending uid db) = Some m"
  then have "m \<in> set (select_pending uid db)"
    by (auto simp: find_Some_iff)
  then have m: "m \<in> set (tasks_table db)" "user_id m = uid" "status m = ''pending''"
    by (simp_all add: select_pending_member)
  from m(1) obtain pre post where split: "tasks_table db = pre @ m # post"
    by (auto dest: split_list)
  have c: "(\<exists>resp. fst r = Inr resp \<and> action resp = ''complete'') \<and>
      snd r = db\<lparr>tasks_table := pre @ m\<lparr>status := ''done''\<rparr> # post\<rparr>"
    if "spec_intent t = Intent_complete"
  proof -
    from that have "r = complete_intent t uid db"
      unfolding t_def r_def by (rule process_complete)
    with complete_intent_Some [OF Some] have "fst r = Inr
       \<lparr>message = ''Great job! Marked '' @ apostrophe @ content m @ apostrophe @ '' as done!'',
        tasks = None, action = ''complete''\<rparr>"
      and "snd r = update_done (task_id m) uid db" by simp_all
    with update_done_exact [OF ids split m(2)]
    have "\<exists>resp. fst r = Inr resp \<and> action resp = ''complete''"
      and "snd r = db\<lparr>tasks_table := pre @ m\<lparr>status := ''done''\<rparr> # post\<rparr>" by simp_all
    then show ?thesis by (rule conjI)
  qed
  have d: "(\<exists>resp. fst r = Inr resp \<and> action resp = ''delete'') \<and>
      snd r = db\<lparr>tasks_table := pre @ post\<rparr>"
    if "spec_intent t = Intent_delete"
  proof -
    from that have "r = delete_intent t uid db"
      unfolding t_def r_def by (rule process_delete)
    with delete_intent_Some [OF Some] have "fst r = Inr
       \<lparr>message = ''Deleted task: '' @ apostrophe @ content m @ apostrophe,
        tasks = None, action = ''delete''\<rparr>"
      and "snd r = delete_row (task_id m) uid db" by simp_all
    with delete_row_exact [OF ids split m(2)]
    have "\<exists>resp. fst r = Inr resp \<and> action resp = ''delete''"
      and "snd r = db\<lparr>tasks_table := pre @ post\<rparr>" by simp_all
    then show ?thesis by (rule conjI)
  qed
  from c have c': "spec_intent t = Intent_complete \<longrightarrow>
      (\<exists>resp. fst r = Inr resp \<and> action resp = ''complete'') \<and>
      snd r = db\<lparr>tasks_table := pre @ m\<lparr>status := ''done''\<rparr> # post\<rparr>"
    by (rule impI)
  from d have d': "spec_intent t = Intent_delete \<longrightarrow>
      (\<exists>resp. fst r = Inr resp \<and> action resp = ''delete'') \<and>
      snd r = db\<lparr>tasks_table := pre @ post\<rparr>"
    by (rule impI)
  from split m(2,3) c' d'
  show "\<exists>pre post. tasks_table db = pre @ m # post \<and> user_id m = uid \<and> status m = ''pending'' \<and>
          (spec_intent t = Intent_complete \<longrightarrow>
             (\<exists>resp. fst r = Inr resp \<and> action resp = ''complete'') \<and>
             snd r = db\<lparr>tasks_table := pre @ m\<lparr>status := ''done''\<rparr> # post\<rparr>) \<and>
          (spec_intent t = Intent_delete \<longrightarrow>
             (\<exists>resp. fst r = Inr resp \<and> action resp = ''delete'') \<and>
             snd r = db\<lparr>tasks_table := pre @ post\<rparr>)"
    by (intro exI [of _ pre] exI [of _ post] conjI)
next
  assume None: "find (task_matches t) (select_pending uid db) = None"
  from intent have "(\<exists>resp. fst r = Inr resp \<and> action resp = ''list'') \<and> snd r = db"
  proof
    assume "spec_intent t = Intent_complete"
    then have "r = complete_intent t uid db"
      unfolding t_def r_def by (rule process_complete)
    with complete_intent_None [OF None] have "fst r = Inr
       \<lparr>message = ''I couldn't find that task. Here are your pending tasks:'',
        tasks = Some (map Task_of_row (select_pending uid db)), action = ''list''\<rparr>"
      and "snd r = db" by simp_all
    then show ?thesis by simp
  next
    assume "spec_intent t = Intent_delete"
    then have "r = delete_intent t uid db"
      unfolding t_def r_def by (rule process_delete)
    with delete_intent_None [OF None] have "fst r = Inr
       \<lparr>message = ''I couldn't find that task to delete. Here are your tasks:'',
        tasks = Some (map Task_of_row (select_pending uid db)), action = ''list''\<rparr>"
      and "snd r = db" by simp_all
    then show ?thesis by simp
  qed
  then show "\<exists>resp. fst r = Inr resp \<and> action resp = ''list''" and "snd r = db"
    by (rule conjunct1, rule conjunct2)
qed

theorem complete_delete_frame_witness:
  "distinct (map task_id (tasks_table sample_db)) \<and>
   (spec_intent (strip (lower ''cancel the bread'')) = Intent_delete \<and>
    find (task_matches (strip (lower ''cancel the bread''))) (select_pending 1 sample_db) =
      Some bread_row \<and>
    (\<exists>pre post. tasks_table sample_db = pre @ bread_row # post \<and>
       (\<exists>resp. fst (process_natural_language sample_env ''cancel the bread'' 1 sample_db) = Inr resp \<and>
          action resp = ''delete'') \<and>
       snd (process_natural_language sample_env ''cancel the bread'' 1 sample_db) =
         sample_db\<lparr>tasks_table := pre @ post\<rparr>) \<and>
    tasks_table (snd (process_natural_language sample_env ''cancel the bread'' 1 sample_db)) =
      [milk_row, report_row]) \<and>
   (spec_intent (strip (lower ''The milk is DONE'')) = Intent_complete \<and>
    find (task_matches (strip (lower ''The milk is DONE''))) (select_pending 1 sample_db) =
      Some milk_row \<and>
    (\<exists>pre post. tasks_table sample_db = pre @ milk_row # post \<and>
       (\<exists>resp. fst (process_natural_language sample_env ''The milk is DONE'' 1 sample_db) = Inr resp \<and>
          action resp = ''complete'') \<and>
       snd (process_natural_language sample_env ''The milk is DONE'' 1 sample_db) =
         sample_db\<lparr>tasks_table := pre @ milk_row\<lparr>status := ''done''\<rparr> # post\<rparr>) \<and>
    tasks_table (snd (process_natural_language sample_env ''The milk is DONE'' 1 sample_db)) =
      [milk_row\<lparr>status := ''done''\<rparr>, report_row, bread_row]) \<and>
   (spec_intent (strip (lower ''the laundry is done'')) = Intent_complete \<and>
    find (task_matches (strip (lower ''the laundry is done''))) (select_pending 1 sample_db) = None \<and>
    (\<exists>resp. fst (process_natural_language sample_env ''the laundry is done'' 1 sample_db) = Inr resp \<and>
       action resp = ''list'') \<and>
    snd (process_natural_language sample_env ''the laundry is done'' 1 sample_db) = sample_db)"
proof -
  let ?d = "process_natural_language sample_env ''cancel the bread'' 1 sample_db"
  let ?c = "process_natural_language sample_env ''The milk is DONE'' 1 sample_db"
  let ?n = "process_natural_language sample_env ''the laundry is done'' 1 sample_db"
  have ids: "distinct (map task_id (tasks_table sample_db))"
    by code_simp
  have di: "spec_intent (strip (lower ''cancel the bread'')) = Intent_delete"
    by code_simp
  have df: "find (task_matches (strip (lower ''cancel the bread''))) (select_pending 1 sample_db) =
      Some bread_row"
    by code_simp
  have dt: "tasks_table (snd ?d) = [milk_row, report_row]"
    by code_simp
  have ci: "spec_intent (strip (lower ''The milk is DONE'')) = Intent_complete"
    by code_simp
  have cf: "find (task_matches (strip (lower ''The milk is DONE''))) (select_pending 1 sample_db) =
      Some milk_row"
    by code_simp
  have ct: "tasks_table (snd ?c) = [milk_row\<lparr>status := ''done''\<rparr>, report_row, bread_row]"
    by code_simp
  have ni: "spec_intent (strip (lower ''the laundry is done'')) = Intent_complete"
    by code_simp
  have nf: "find (task_matches (strip (lower ''the laundry is done''))) (select_pending 1 sample_db) =
      None"
    by code_simp
  from complete_delete_frame [where e = sample_env and uid = 1, OF ids disjI2 [OF di]] df di
  have d: "\<exists>pre post. tasks_table sample_db = pre @ bread_row # post \<and>
       (\<exists>resp. fst ?d = Inr resp \<and> action resp = ''delete'') \<and>
       snd ?d = sample_db\<lparr>tasks_table := pre @ post\<rparr>"
    by blast
  from complete_delete_frame [where e = sample_env and uid = 1, OF ids disjI1 [OF ci]] cf ci
  have c: "\<exists>pre post. tasks_table sample_db = pre @ milk_row # post \<and>
       (\<exists>resp. fst ?c = Inr resp \<and> action resp = ''complete'') \<and>
       snd ?c = sample_db\<lparr>tasks_table := pre @ milk_row\<lparr>status := ''done''\<rparr> # post\<rparr>"
    by blast
  from complete_delete_frame [where e = sample_env and uid = 1, OF ids disjI1 [OF ni]] nf
  have n: "\<exists>resp. fst ?n = Inr resp \<and> action resp = ''list''" and n': "snd ?n = sample_db"
    by blast+
  from ids di df d dt ci cf c ct ni nf n n' show ?thesis by (intro conjI)
qed

subsection \<open>Printing a date and reading it back\<close>

lemma digit_value_digit_char: "digit_value (digit_char n) = Some (n mod 10)"
proof -
  have all: "\<forall>k \<in> set [0..<10]. digit_value (digits ! k) = Some k"
    by code_simp
  have "n mod 10 \<in> set [0..<10]" by simp
  with all have "digit_value (digits ! (n mod 10)) = Some (n mod 10)" by blast
  then show ?thesis by (simp add: digit_char_def)
qed

lemma number_pad2: "n < 100 \<Longrightarrow> number (pad2 n) = Some n"
  by (simp add: pad2_def digit_value_digit_char)

lemma number_snoc:
  "number (cs @ [c]) =
     (case (number cs, digit_value c) of (Some r, Some v) \<Rightarrow> Some (r * 10 + v) | _ \<Rightarrow> None)"
proof (induction cs)
  case Nil
  then show ?case by (simp split: option.splits)
next
  case (Cons a cs)
  then show ?case by (simp add: algebra_simps split: option.splits)
qed

lemma str_nat_unfold:
  "str_nat n = (if n < 10 then [digit_char n] else str_nat (n div 10) @ [digit_char n])"
  by (rule str_nat.simps)

lemma number_str_nat: "number (str_nat n) = Some n"
proof (induction n rule: str_nat.induct)
  case (1 n)
  show ?case
  proof (cases "n < 10")
    case True
    then have "str_nat n = [digit_char n]" by (subst str_nat_unfold) simp
    with True show ?thesis by (simp add: digit_value_digit_char)
  next
    case False
    then have "str_nat n = str_nat (n div 10) @ [digit_char n]" by (subst str_nat_unfold) simp
    moreover from False have "number (str_nat (n div 10)) = Some (n div 10)" by (rule "1.IH")
    ultimately show ?thesis by (simp add: number_snoc digit_value_digit_char)
  qed
qed

lemma length_str_nat:
  "length (str_nat n) = (if n < 10 then 1 else Suc (length (str_nat (n div 10))))"
  by (subst str_nat_unfold) simp

lemma length_str_nat_four:
  assumes "1000 \<le> n" "n < 10000"
  shows "length (str_nat n) = 4"
proof -
  define a where "a = n div 10"
  define b where "b = a div 10"
  define c where "c = b div 10"
  from assms have a: "100 \<le> a" "a < 1000" by (simp_all add: a_def)
  then have b: "10 \<le> b" "b < 100" by (simp_all add: b_def)
  then have c: "1 \<le> c" "c < 10" by (simp_all add: c_def)
  from c have "length (str_nat c) = 1" by (simp add: length_str_nat [of c])
  with b have "length (str_nat b) = 2" by (simp add: length_str_nat [of b] c_def)
  with a have "length (str_nat a) = 3" by (simp add: length_str_nat [of a] b_def)
  with assms show ?thesis by (simp add: length_str_nat [of n] a_def)
qed

lemma days_in_month_le: "days_in_month y m \<le> 31"
  by (simp add: days_in_month_def)

lemma strptime_strftime:
  assumes "valid_date d" "1000 \<le> year d"
  shows "strptime_ymd (strftime_ymd d) = Inr d"
proof -
  let ?s = "strftime_ymd d"
  let ?y = "str_nat (year d)"
  from assms have y: "year d < 10000" and m: "month d < 100" and n: "day d < 100"
    using days_in_month_le [of "year d" "month d"] by (simp_all add: valid_date_def)
  have len: "length ?y = 4" using assms(2) y by (rule length_str_nat_four)
  have s: "?s = ?y @ CHR ''-'' # pad2 (month d) @ CHR ''-'' # pad2 (day d)"
    by (simp add: strftime_ymd_def)
  have shape: "length ?s = 10" "?s ! 4 = CHR ''-''" "?s ! 7 = CHR ''-''"
    unfolding s using len by (simp_all add: pad2_def nth_append)
  have parts: "take 4 ?s = ?y" "take 2 (drop 5 ?s) = pad2 (month d)" "drop 8 ?s = pad2 (day d)"
    unfolding s using len by (simp_all add: pad2_def)
  have nums: "number (take 4 ?s) = Some (year d)" "number (take 2 (drop 5 ?s)) = Some (month d)"
    "number (drop 8 ?s) = Some (day d)"
    unfolding parts using m n by (simp_all add: number_str_nat number_pad2)
  have "valid_date \<lparr>year = year d, month = month d, day = day d\<rparr>"
    using assms(1) by (simp add: valid_date_def)
  with shape nums show ?thesis
    unfolding strptime_ymd_def by (simp add: Let_def)
qed

lemma strftime_ymd_nonempty: "strftime_ymd d \<noteq> []"
  by (simp add: strftime_ymd_def)

text \<open>Two dates with months and days of two digits are printed alike only when equal.\<close>

lemma strftime_ymd_inj:
  assumes "valid_date a" "valid_date b" "strftime_ymd a = strftime_ymd b"
  shows "a = b"
proof -
  let ?ya = "str_nat (year a)" and ?yb = "str_nat (year b)"
  let ?ra = "CHR ''-'' # pad2 (month a) @ CHR ''-'' # pad2 (day a)"
  let ?rb = "CHR ''-'' # pad2 (month b) @ CHR ''-'' # pad2 (day b)"
  from assms(1,2) have small: "month a < 100" "day a < 100" "month b < 100" "day b < 100"
    using days_in_month_le [of "year a" "month a"] days_in_month_le [of "year b" "month b"]
    by (simp_all add: valid_date_def)
  from assms(3) have eq: "?ya @ ?ra = ?yb @ ?rb"
    by (simp add: strftime_ymd_def)
  have "length ?ra = length ?rb" by (simp add: pad2_def)
  with eq have y: "?ya = ?yb" and r: "?ra = ?rb"
    by (simp_all add: append_eq_append_conv)
  from y have "number ?ya = number ?yb" by simp
  then have year: "year a = year b" by (simp add: number_str_nat)
  from r have "pad2 (month a) = pad2 (month b)" "pad2 (day a) = pad2 (day b)"
    by (simp_all add: pad2_def)
  then have "number (pad2 (month a)) = number (pad2 (month b))"
    "number (pad2 (day a)) = number (pad2 (day b))" by simp_all
  with small have "month a = month b" "day a = day b" by (simp_all add: number_pad2)
  with year show ?thesis by (simp add: date.equality)
qed

subsection \<open>The calendar\<close>

lemma div_pred:
  fixes z m :: int
  assumes "0 < m"
  shows "z div m = (z - 1) div m + (if z mod m = 0 then 1 else 0)"
proof (cases "z mod m = 0")
  case True
  have "z - 1 = m * (z div m - 1) + (m - 1)"
    using True mult_div_mod_eq [of m z] by (simp add: algebra_simps)
  moreover have "0 \<le> m - 1" "m - 1 < m" using assms by simp_all
  ultimately have "(z - 1) div m = z div m - 1" by (rule int_div_pos_eq)
  with True show ?thesis by simp
next
  case False
  have r: "0 \<le> z mod m" "z mod m < m" using assms by simp_all
  have "z - 1 = m * (z div m) + (z mod m - 1)"
    using mult_div_mod_eq [of m z] by simp
  moreover have "0 \<le> z mod m - 1" "z mod m - 1 < m" using r False by simp_all
  ultimately have "(z - 1) div m = z div m" by (rule int_div_pos_eq)
  with False show ?thesis by simp
qed

lemma div_step:
  fixes z :: int
  shows "z div 4 = (z - 1) div 4 + (if z mod 4 = 0 then 1 else 0)"
    and "z div 100 = (z - 1) div 100 + (if z mod 100 = 0 then 1 else 0)"
    and "z div 400 = (z - 1) div 400 + (if z mod 400 = 0 then 1 else 0)"
  by (rule div_pred, simp)+

lemma mod_chain:
  fixes z :: int
  shows "z mod 100 = 0 \<Longrightarrow> z mod 4 = 0" and "z mod 400 = 0 \<Longrightarrow> z mod 100 = 0"
proof -
  have "(4::int) dvd 100" "(100::int) dvd 400" by simp_all
  then show "z mod 100 = 0 \<Longrightarrow> z mod 4 = 0" "z mod 400 = 0 \<Longrightarrow> z mod 100 = 0"
    by (auto simp: mod_eq_0_iff_dvd elim: dvd_trans)
qed

lemma is_leap_int:
  "is_leap y \<longleftrightarrow> int y mod 4 = 0 \<and> (int y mod 100 \<noteq> 0 \<or> int y mod 400 = 0)"
proof -
  have "int y mod 4 = int (y mod 4)" "int y mod 100 = int (y mod 100)"
    "int y mod 400 = int (y mod 400)"
    by (simp_all add: zmod_int)
  then show ?thesis by (simp add: is_leap_def)
qed

lemma days_before_year_Suc:
  "days_before_year (Suc y) = days_before_year y + (if is_leap y then 366 else 365)"
proof -
  define z where "z = int y"
  define e4 :: int where "e4 = (if z mod 4 = 0 then 1 else 0)"
  define e100 :: int where "e100 = (if z mod 100 = 0 then 1 else 0)"
  define e400 :: int where "e400 = (if z mod 400 = 0 then 1 else 0)"
  define q4 where "q4 = (z - 1) div 4"
  define q100 where "q100 = (z - 1) div 100"
  define q400 where "q400 = (z - 1) div 400"
  have d: "z div 4 = q4 + e4" "z div 100 = q100 + e100" "z div 400 = q400 + e400"
    unfolding q4_def q100_def q400_def e4_def e100_def e400_def by (rule div_step)+
  have a: "days_before_year (Suc y) = z * 365 + z div 4 - z div 100 + z div 400"
    by (simp add: days_before_year_def z_def Let_def)
  have b: "days_before_year y = (z - 1) * 365 + q4 - q100 + q400"
    by (simp add: days_before_year_def z_def Let_def q4_def q100_def q400_def)
  have step: "days_before_year (Suc y) = days_before_year y + (365 + e4 - e100 + e400)"
    unfolding a b d by (simp add: algebra_simps)
  have l: "is_leap y \<longleftrightarrow> z mod 4 = 0 \<and> (z mod 100 \<noteq> 0 \<or> z mod 400 = 0)"
    unfolding z_def by (rule is_leap_int)
  consider (c1) "z mod 4 \<noteq> 0" | (c2) "z mod 4 = 0" "z mod 100 \<noteq> 0"
    | (c3) "z mod 100 = 0" "z mod 400 \<noteq> 0" | (c4) "z mod 400 = 0"
    by argo
  then have "(if is_leap y then 366 else 365) = 365 + e4 - e100 + e400"
  proof cases
    case c1
    with mod_chain [of z] have "z mod 100 \<noteq> 0" "z mod 400 \<noteq> 0" by argo+
    with c1 show ?thesis by (simp add: l e4_def e100_def e400_def)
  next
    case c2
    with mod_chain [of z] have "z mod 400 \<noteq> 0" by argo
    with c2 show ?thesis by (simp add: l e4_def e100_def e400_def)
  next
    case c3
    with mod_chain [of z] have "z mod 4 = 0" by argo
    with c3 show ?thesis by (simp add: l e4_def e100_def e400_def)
  next
    case c4
    with mod_chain [of z] have "z mod 100 = 0" "z mod 4 = 0" by argo+
    with c4 show ?thesis by (simp add: l e4_def e100_def e400_def)
  qed
  with step show ?thesis by (simp only:)
qed

lemma days_before_month_Suc:
  "1 \<le> m \<Longrightarrow> days_before_month y (Suc m) = days_before_month y m + int (days_in_month y m)"
  by (simp add: days_before_month_def)

lemma months_before_december: "[Suc 0..<12] = [1, 2, 3, 4, 5, 6, 7, 8, 9, 10, 11 :: nat]"
  by code_simp

lemma days_before_month_12: "days_before_month y 12 = (if is_leap y then 335 else 334)"
  by (simp add: days_before_month_def months_before_december days_in_month_def)

lemma days_in_month_pos: "1 \<le> days_in_month y m"
  by (simp add: days_in_month_def)

lemma wf_next_day:
  assumes "wf_date d"
  shows "wf_date (next_day d)"
proof -
  consider (a) "day d < days_in_month (year d) (month d)"
    | (b) "\<not> day d < days_in_month (year d) (month d)" "month d < 12"
    | (c) "\<not> day d < days_in_month (year d) (month d)" "\<not> month d < 12"
    by argo
  then show ?thesis
  proof cases
    case a
    with assms show ?thesis by (simp add: wf_date_def next_day_def)
  next
    case b
    with assms days_in_month_pos [of "year d" "month d + 1"] show ?thesis
      by (simp add: wf_date_def next_day_def)
  next
    case c
    with assms show ?thesis by (simp add: wf_date_def next_day_def days_in_month_def)
  qed
qed

lemma toordinal_next_day:
  assumes "wf_date d"
  shows "toordinal (next_day d) = toordinal d + 1"
proof -
  consider (a) "day d < days_in_month (year d) (month d)"
    | (b) "\<not> day d < days_in_month (year d) (month d)" "month d < 12"
    | (c) "\<not> day d < days_in_month (year d) (month d)" "\<not> month d < 12"
    by argo
  then show ?thesis
  proof cases
    case a
    then show ?thesis by (simp add: toordinal_def next_day_def)
  next
    case b
    with assms have last: "day d = days_in_month (year d) (month d)" and m: "1 \<le> month d"
      by (simp_all add: wf_date_def)
    from b have "next_day d = d\<lparr>month := month d + 1, day := 1\<rparr>" by (simp add: next_day_def)
    then have "toordinal (next_day d) =
        days_before_year (year d) + days_before_month (year d) (Suc (month d)) + 1"
      by (simp add: toordinal_def)
    with days_before_month_Suc [OF m, of "year d"] last show ?thesis
      by (simp add: toordinal_def)
  next
    case c
    with assms have last: "day d = 31" and m: "month d = 12"
      by (simp_all add: wf_date_def days_in_month_def)
    from c have "next_day d = \<lparr>year = year d + 1, month = 1, day = 1\<rparr>" by (simp add: next_day_def)
    then have "toordinal (next_day d) = days_before_year (Suc (year d)) + 1"
      by (simp add: toordinal_def days_before_month_def)
    with days_before_year_Suc [of "year d"] days_before_month_12 [of "year d"] last m show ?thesis
      by (simp add: toordinal_def)
  qed
qed

lemma wf_funpow_next_day: "wf_date d \<Longrightarrow> wf_date ((next_day ^^ k) d)"
  by (induction k) (simp_all add: wf_next_day)

lemma toordinal_funpow_next_day:
  "wf_date d \<Longrightarrow> toordinal ((next_day ^^ k) d) = toordinal d + int k"
  by (induction k) (simp_all add: wf_funpow_next_day toordinal_next_day)

lemma year_funpow_next_day:
  assumes "wf_date d" "k \<le> 30"
  shows "year ((next_day ^^ k) d) = year d \<or>
         year ((next_day ^^ k) d) = year d + 1 \<and> month ((next_day ^^ k) d) = 1 \<and>
           day ((next_day ^^ k) d) \<le> k"
  using assms(2)
proof (induction k)
  case 0
  then show ?case by simp
next
  case (Suc k)
  let ?r = "(next_day ^^ k) d"
  have wf: "wf_date ?r" using assms(1) by (rule wf_funpow_next_day)
  from Suc have ih: "year ?r = year d \<or> year ?r = year d + 1 \<and> month ?r = 1 \<and> day ?r \<le> k"
    and k: "k < 30" by simp_all
  from ih show ?case
  proof
    assume same: "year ?r = year d"
    have "year (next_day ?r) = year ?r \<or>
        year (next_day ?r) = year ?r + 1 \<and> month (next_day ?r) = 1 \<and> day (next_day ?r) = 1"
      by (simp add: next_day_def)
    with same show ?thesis by auto
  next
    assume later: "year ?r = year d + 1 \<and> month ?r = 1 \<and> day ?r \<le> k"
    with later k have "day ?r < days_in_month (year ?r) (month ?r)"
      by (simp add: days_in_month_def)
    then have "next_day ?r = ?r\<lparr>day := day ?r + 1\<rparr>" by (simp add: next_day_def)
    with later show ?thesis by simp
  qed
qed

lemma add_days_forward:
  assumes "valid_date d" "year d < 9999" "0 \<le> k" "k \<le> 30"
  shows "add_days d k = Inr ((next_day ^^ nat k) d)"
proof -
  from assms(1) have wf: "wf_date d" by (simp add: valid_date_def wf_date_def)
  from assms(3,4) have "nat k \<le> 30" by simp
  from year_funpow_next_day [OF wf this] assms(1,2)
  have "1 \<le> year ((next_day ^^ nat k) d) \<and> year ((next_day ^^ nat k) d) \<le> 9999"
    by (auto simp: valid_date_def)
  with assms(3) show ?thesis by (simp add: add_days_def Let_def)
qed

lemma weekday_funpow_next_day:
  "wf_date d \<Longrightarrow> weekday ((next_day ^^ k) d) = (weekday d + int k) mod 7"
  by (simp add: weekday_def toordinal_funpow_next_day mod_simps algebra_simps)

lemma weekday_range: "0 \<le> weekday d \<and> weekday d < 7"
  by (simp add: weekday_def)

subsection \<open>The end of the week\<close>

lemma str_in_lower: "str_in w t \<Longrightarrow> str_in (lower w) (lower t)"
  unfolding str_in_def lower_def by (rule map_mono_sublist)

lemma lower_end_of_week: "lower ''end of week'' = ''end of week''"
  by code_simp

lemma lower_end_of_month: "lower ''end of month'' = ''end of month''"
  by code_simp

lemma valid_funpow_next_day:
  assumes "valid_date d" "year d < 9999" "k \<le> 30"
  shows "valid_date ((next_day ^^ k) d)"
proof -
  from assms(1) have wf: "wf_date d" by (simp add: valid_date_def wf_date_def)
  from wf_funpow_next_day [OF wf, of k] year_funpow_next_day [OF wf assms(3)] assms(2)
  show ?thesis by (auto simp: valid_date_def wf_date_def)
qed

lemma funpow_six: "(f ^^ 6) x = f (f (f (f (f (f x)))))"
  by (simp add: eval_nat_numeral)

lemma sample_week:
  "today sample_env = \<lparr>year = 2024, month = 6, day = 3\<rparr>"
  "weekday \<lparr>year = 2024, month = 6, day = 3\<rparr> = 0"
  "add_days \<lparr>year = 2024, month = 6, day = 3\<rparr> 6 = Inr \<lparr>year = 2024, month = 6, day = 9\<rparr>"
  "strftime_ymd \<lparr>year = 2024, month = 6, day = 9\<rparr> = ''2024-06-09''"
proof -
  show "today sample_env = \<lparr>year = 2024, month = 6, day = 3\<rparr>"
    by (simp add: sample_env_def)
  show "weekday \<lparr>year = 2024, month = 6, day = 3\<rparr> = 0"
    by code_simp
  show "add_days \<lparr>year = 2024, month = 6, day = 3\<rparr> 6 = Inr \<lparr>year = 2024, month = 6, day = 9\<rparr>"
    by (simp add: add_days_def funpow_six next_day_def days_in_month_def)
  show "strftime_ymd \<lparr>year = 2024, month = 6, day = 9\<rparr> = ''2024-06-09''"
    by code_simp
qed

lemma parse_sample_end_of_week:
  assumes "str_in ''end of week'' (lower input)"
  shows "parse_date_from_text sample_env input = Inr (Some ''2024-06-09'')"
  using assms by (simp add: parse_date_from_text_def sample_week Let_def)

lemma add_days_in_range:
  assumes "wf_date d" "0 \<le> k" "year ((next_day ^^ nat k) d) \<le> 9999"
  shows "add_days d k = Inr ((next_day ^^ nat k) d)"
proof -
  from wf_funpow_next_day [OF assms(1), of "nat k"] have "1 \<le> year ((next_day ^^ nat k) d)"
    by (simp add: wf_date_def)
  with assms(2,3) show ?thesis by (simp add: add_days_def Let_def)
qed

text \<open>
  The last Sunday of \<^verbatim>\<open>datetime\<close> is 9999-12-26, day 3652054; the year 10000 would begin
  after day 3652059.
\<close>

lemma last_sunday:
  "toordinal \<lparr>year = 9999, month = 12, day = 26\<rparr> = 3652054"
  "days_before_year 9999 = 3651694"
  "days_before_year 10000 = 3652059"
  "\<not> is_leap 9999"
  by (simp_all add: toordinal_def days_before_year_def days_before_month_12 is_leap_def)

lemma months_9999:
  "list_all (\<lambda>m. days_before_month 9999 m + int (days_in_month 9999 m) \<le> 334)
     [1, 2, 3, 4, 5, 6, 7, 8, 9, 10, 11]"
  by (simp add: days_before_month_def days_in_month_def is_leap_def
      upt_rec [of _ "numeral _"] upt_rec [of "Suc _" "numeral _"])

lemma toordinal_before_last_sunday:
  assumes v: "valid_date d" and y: "year d = 9999" and b: "month d < 12 \<or> day d < 26"
  shows "toordinal d < 3652054"
proof (cases "month d < 12")
  case True
  with v have "month d \<in> set [Suc 0..<12]" by (simp add: valid_date_def)
  with months_9999 [folded months_before_december]
  have "days_before_month 9999 (month d) + int (days_in_month 9999 (month d)) \<le> 334"
    unfolding list_all_iff by (rule bspec)
  moreover from v y have "int (day d) \<le> int (days_in_month 9999 (month d))"
    by (simp add: valid_date_def)
  ultimately show ?thesis
    by (simp add: toordinal_def y last_sunday)
next
  case False
  with v b have m: "month d = 12" and "day d < 26" by (simp_all add: valid_date_def)
  then show ?thesis
    by (simp add: toordinal_def y last_sunday days_before_month_12)
qed

lemma next_sunday_bound:
  fixes T S w n :: int
  assumes "(T + 6) mod 7 = w" "n = (if w = 6 then 7 else 6 - w)" "S mod 7 = 0" "T < S"
  shows "T + n \<le> S"
  using assms by presburger

lemma last_monday:
  "weekday \<lparr>year = 9999, month = 12, day = 27\<rparr> = 0"
  "add_days \<lparr>year = 9999, month = 12, day = 27\<rparr> 6 = Inl OverflowError"
  "valid_date \<lparr>year = 9999, month = 12, day = 27\<rparr>"
proof -
  show "weekday \<lparr>year = 9999, month = 12, day = 27\<rparr> = 0"
    by (simp add: weekday_def toordinal_def days_before_year_def days_before_month_12 is_leap_def)
  show "add_days \<lparr>year = 9999, month = 12, day = 27\<rparr> 6 = Inl OverflowError"
    by (simp add: add_days_def funpow_six next_day_def days_in_month_def)
  show "valid_date \<lparr>year = 9999, month = 12, day = 27\<rparr>"
    by (simp add: valid_date_def days_in_month_def)
qed

lemma parse_date_end_of_week:
  fixes input :: string and e :: env
  assumes phrase: "str_in ''end of week'' input \<or> str_in ''end of week'' (lower input)"
    and valid: "valid_date (today e)"
    and before: "year (today e) < 9999 \<or> month (today e) < 12 \<or> day (today e) < 26"
  shows "\<exists>k. 1 \<le> k \<and> k \<le> 7 \<and>
           parse_date_from_text e input = Inr (Some (strftime_ymd ((next_day ^^ k) (today e)))) \<and>
           valid_date ((next_day ^^ k) (today e)) \<and>
           weekday ((next_day ^^ k) (today e)) = 6 \<and>
           (\<forall>j. 1 \<le> j \<and> j < k \<longrightarrow> weekday ((next_day ^^ j) (today e)) \<noteq> 6) \<and>
           (weekday (today e) = 6 \<longrightarrow> k = 7) \<and>
           strftime_ymd ((next_day ^^ k) (today e)) \<noteq> strftime_ymd (today e)"
proof -
  let ?d = "today e"
  from valid have wf: "wf_date ?d" by (simp add: valid_date_def wf_date_def)
  from phrase have low: "str_in ''end of week'' (lower input)"
    using str_in_lower [of "''end of week''" input] by (auto simp: lower_end_of_week)
  define w where "w = weekday ?d"
  have w: "0 \<le> w" "w \<le> 6" using weekday_range [of ?d] by (simp_all add: w_def)
  define n where "n = (if (6 - w) mod 7 = 0 then 7 else (6 - w) mod 7)"
  have n_eq: "n = (if w = 6 then 7 else 6 - w)"
    using w by (simp add: n_def)
  have n: "1 \<le> n" "n \<le> 7" using w by (simp_all add: n_eq)
  define k where "k = nat n"
  have k: "1 \<le> k" "k \<le> 7" "int k = n" using n by (simp_all add: k_def)
  let ?r = "(next_day ^^ k) ?d"
  have ord: "toordinal ?r = toordinal ?d + int k"
    using wf by (rule toordinal_funpow_next_day)
  from k(2) have "k \<le> 30" by simp
  with wf have step: "year ?r = year ?d \<or> year ?r = year ?d + 1 \<and> month ?r = 1 \<and> day ?r \<le> k"
    by (rule year_funpow_next_day)
  have yr: "year ?r \<le> 9999"
  proof (cases "year ?d < 9999")
    case True
    from step show ?thesis
    proof
      assume "year ?r = year ?d"
      with True show ?thesis by simp
    next
      assume "year ?r = year ?d + 1 \<and> month ?r = 1 \<and> day ?r \<le> k"
      with True show ?thesis by simp
    qed
  next
    case False
    with valid have y: "year ?d = 9999" by (simp add: valid_date_def)
    from before y have "month ?d < 12 \<or> day ?d < 26" by simp
    with valid y have lt: "toordinal ?d < 3652054" by (rule toordinal_before_last_sunday)
    have wd: "(toordinal ?d + 6) mod 7 = w" by (simp add: w_def weekday_def)
    have "(3652054 :: int) mod 7 = 0" by simp
    with wd n_eq have "toordinal ?d + n \<le> 3652054" using lt by (rule next_sunday_bound)
    with ord k(3) have le: "toordinal ?r \<le> 3652054" by simp
    from step show ?thesis
    proof
      assume "year ?r = year ?d"
      with y show ?thesis by simp
    next
      assume "year ?r = year ?d + 1 \<and> month ?r = 1 \<and> day ?r \<le> k"
      with y have "year ?r = 10000" "month ?r = 1" by simp_all
      then have "toordinal ?r = 3652059 + int (day ?r)"
        by (simp add: toordinal_def last_sunday days_before_month_def)
      with le have False by simp
      then show ?thesis ..
    qed
  qed
  have add: "add_days ?d n = Inr ?r"
    unfolding k_def using wf n(1) yr [unfolded k_def] by (intro add_days_in_range) simp_all
  have parse: "parse_date_from_text e input = Inr (Some (strftime_ymd ?r))"
    using low add by (simp add: parse_date_from_text_def Let_def w_def [symmetric] n_def [symmetric])
  have vr: "valid_date ?r"
    using wf_funpow_next_day [OF wf, of k] yr by (simp add: valid_date_def wf_date_def)
  have wd: "weekday ((next_day ^^ j) ?d) = (w + int j) mod 7" for j
    unfolding w_def using wf by (rule weekday_funpow_next_day)
  have sunday: "weekday ?r = 6"
    unfolding wd k(3) using w by (simp add: n_eq)
  have first: "\<forall>j. 1 \<le> j \<and> j < k \<longrightarrow> weekday ((next_day ^^ j) ?d) \<noteq> 6"
  proof (intro allI impI)
    fix j assume j: "1 \<le> j \<and> j < k"
    then have "1 \<le> int j" "int j < n" using k(3) by simp_all
    with w have "(w + int j) mod 7 \<noteq> 6"
      unfolding n_eq by presburger
    then show "weekday ((next_day ^^ j) ?d) \<noteq> 6"
      unfolding wd .
  qed
  have seven: "weekday ?d = 6 \<longrightarrow> k = 7"
    using k(3) unfolding w_def [symmetric] n_eq by auto
  from ord k(1) have "?r \<noteq> ?d" by auto
  with strftime_ymd_inj [OF vr valid] have differ: "strftime_ymd ?r \<noteq> strftime_ymd ?d"
    by blast
  from k(1,2) parse vr sunday first seven differ show ?thesis
    by (intro exI [of _ k] conjI)
qed

text \<open>
  C8. For a text that contains \<^verbatim>\<open>end of week\<close> (as it is, or once lower-cased) and a
  current date of \<^verbatim>\<open>datetime\<close> before 9999-12-26, \<^verbatim>\<open>parse_date_from_text\<close> returns the
  date \<open>k\<close> days after today, for a \<open>k\<close> from 1 to 7: that date is a Sunday, no day
  strictly between today and it is a Sunday, \<open>k\<close> is 7 when today is a Sunday, and the
  string returned is not today's. 9999-12-26 is the last Sunday of \<^verbatim>\<open>datetime\<close>: from
  that day on the Sunday looked for is past \<^verbatim>\<open>date.max\<close>, and the addition raises.
\<close>

theorem end_of_week_next_sunday:
  fixes input :: string and e :: env
  assumes phrase: "str_in ''end of week'' input \<or> str_in ''end of week'' (lower input)"
    and valid: "valid_date (today e)"
    and before: "year (today e) < 9999 \<or> month (today e) < 12 \<or> day (today e) < 26"
  shows "\<exists>k. 1 \<le> k \<and> k \<le> 7 \<and>
           parse_date_from_text e input = Inr (Some (strftime_ymd ((next_day ^^ k) (today e)))) \<and>
           valid_date ((next_day ^^ k) (today e)) \<and>
           weekday ((next_day ^^ k) (today e)) = 6 \<and>
           (\<forall>j. 1 \<le> j \<and> j < k \<longrightarrow> weekday ((next_day ^^ j) (today e)) \<noteq> 6) \<and>
           (weekday (today e) = 6 \<longrightarrow> k = 7) \<and>
           strftime_ymd ((next_day ^^ k) (today e)) \<noteq> strftime_ymd (today e)"
  using assms by (rule parse_date_end_of_week)

theorem end_of_week_next_sunday_witness:
  "(str_in ''end of week'' ''Add task finish report by end of week'' \<and>
    valid_date (today sample_env) \<and> year (today sample_env) < 9999 \<and>
    weekday (today sample_env) = 0 \<and>
    parse_date_from_text sample_env ''Add task finish report by end of week'' =
      Inr (Some ''2024-06-09'') \<and>
    (\<exists>k. 1 \<le> k \<and> k \<le> 7 \<and>
       parse_date_from_text sample_env ''Add task finish report by end of week'' =
         Inr (Some (strftime_ymd ((next_day ^^ k) (today sample_env)))) \<and>
       weekday ((next_day ^^ k) (today sample_env)) = 6)) \<and>
   (valid_date (today last_saturday_env) \<and>
    year (today last_saturday_env) = 9999 \<and> month (today last_saturday_env) = 12 \<and>
    day (today last_saturday_env) < 26 \<and>
    parse_date_from_text last_saturday_env ''end of week'' = Inr (Some ''9999-12-26'') \<and>
    (\<exists>k. 1 \<le> k \<and> k \<le> 7 \<and>
       parse_date_from_text last_saturday_env ''end of week'' =
         Inr (Some (strftime_ymd ((next_day ^^ k) (today last_saturday_env)))) \<and>
       weekday ((next_day ^^ k) (today last_saturday_env)) = 6))"
proof -
  have p: "str_in ''end of week'' ''Add task finish report by end of week''"
    by code_simp
  have v: "valid_date (today sample_env)"
    by code_simp
  have y: "year (today sample_env) < 9999"
    by code_simp
  have m: "weekday (today sample_env) = 0"
    by code_simp
  have low: "str_in ''end of week'' (lower ''Add task finish report by end of week'')"
    by code_simp
  have r: "parse_date_from_text sample_env ''Add task finish report by end of week'' =
     Inr (Some ''2024-06-09'')"
    using low by (rule parse_sample_end_of_week)
  from end_of_week_next_sunday [OF disjI1 [OF p] v disjI1 [OF y]]
  have a: "\<exists>k. 1 \<le> k \<and> k \<le> 7 \<and>
      parse_date_from_text sample_env ''Add task finish report by end of week'' =
        Inr (Some (strftime_ymd ((next_day ^^ k) (today sample_env)))) \<and>
      weekday ((next_day ^^ k) (today sample_env)) = 6"
    by blast
  have p': "str_in ''end of week'' ''end of week''"
    by code_simp
  have t: "today last_saturday_env = \<lparr>year = 9999, month = 12, day = 25\<rparr>"
    by (simp add: last_saturday_env_def)
  have v': "valid_date (today last_saturday_env)"
    unfolding t by (simp add: valid_date_def days_in_month_def)
  have y': "year (today last_saturday_env) = 9999"
    and m': "month (today last_saturday_env) = 12"
    and d': "day (today last_saturday_env) < 26"
    unfolding t by simp_all
  have w': "weekday \<lparr>year = 9999, month = 12, day = 25\<rparr> = 5"
    by (simp add: weekday_def toordinal_def days_before_year_def days_before_month_12 is_leap_def)
  have s': "strftime_ymd \<lparr>year = 9999, month = 12, day = 26\<rparr> = ''9999-12-26''"
    by (simp add: strftime_ymd_def str_nat_unfold [of "numeral _"] pad2_def digit_char_def digits_def)
  have r': "parse_date_from_text last_saturday_env ''end of week'' = Inr (Some ''9999-12-26'')"
    by (simp add: parse_date_from_text_def Let_def t w' s' lower_end_of_week str_in_def
        add_days_def next_day_def days_in_month_def)
  from end_of_week_next_sunday [OF disjI1 [OF p'] v' disjI2 [OF disjI2 [OF d']]]
  have b: "\<exists>k. 1 \<le> k \<and> k \<le> 7 \<and>
      parse_date_from_text last_saturday_env ''end of week'' =
        Inr (Some (strftime_ymd ((next_day ^^ k) (today last_saturday_env)))) \<and>
      weekday ((next_day ^^ k) (today last_saturday_env)) = 6"
    by blast
  from p v y m r a v' y' m' d' r' b show ?thesis by (intro conjI)
qed

text \<open>
  On Monday 9999-12-27 the text \<^verbatim>\<open>end of week\<close> asks for the Sunday six days later,
  10000-01-02: \<^verbatim>\<open>today + timedelta(days=6)\<close> raises \<^verbatim>\<open>OverflowError\<close> and no date is
  returned.
\<close>

theorem end_of_week_overflow_counterexample:
  "str_in ''end of week'' ''end of week'' \<and>
   valid_date (today last_monday_env) \<and>
   today last_monday_env = \<lparr>year = 9999, month = 12, day = 27\<rparr> \<and>
   parse_date_from_text last_monday_env ''end of week'' = Inl OverflowError"
proof -
  have p: "str_in ''end of week'' ''end of week''"
    by code_simp
  have t: "today last_monday_env = \<lparr>year = 9999, month = 12, day = 27\<rparr>"
    by (simp add: last_monday_env_def)
  have v: "valid_date (today last_monday_env)"
    unfolding t by (rule last_monday)
  have r: "parse_date_from_text last_monday_env ''end of week'' = Inl OverflowError"
    by (simp add: parse_date_from_text_def Let_def t last_monday lower_end_of_week str_in_def)
  from p v t r show ?thesis by (intro conjI)
qed

subsection \<open>The end of the month\<close>

lemma parse_date_end_of_month:
  fixes input :: string and e :: env
  assumes phrase: "str_in ''end of month'' input \<or> str_in ''end of month'' (lower input)"
    and first: "\<not> str_in ''end of week'' (lower input)"
    and valid: "valid_date (today e)"
  shows "parse_date_from_text e input =
           Inr (Some (strftime_ymd
             ((today e)\<lparr>day := days_in_month (year (today e)) (month (today e))\<rparr>))) \<and>
         valid_date ((today e)\<lparr>day := days_in_month (year (today e)) (month (today e))\<rparr>) \<and>
         (\<forall>d. valid_date d \<and> year d = year (today e) \<and> month d = month (today e) \<longrightarrow>
            day d \<le> days_in_month (year (today e)) (month (today e))) \<and>
         (day (today e) = days_in_month (year (today e)) (month (today e)) \<longrightarrow>
            parse_date_from_text e input = Inr (Some (strftime_ymd (today e)))) \<and>
         (month (today e) = 12 \<longrightarrow>
            parse_date_from_text e input = Inr (Some (str_nat (year (today e)) @ ''-12-31'')))"
proof -
  let ?d = "today e"
  let ?last = "?d\<lparr>day := days_in_month (year ?d) (month ?d)\<rparr>"
  from phrase have low: "str_in ''end of month'' (lower input)"
    using str_in_lower [of "''end of month''" input] by (auto simp: lower_end_of_month)
  have vl: "valid_date ?last"
    using valid days_in_month_pos [of "year ?d" "month ?d"] by (simp add: valid_date_def)
  have last_day: "(if month ?d = 12 then replace ?d 12 31
               else (case replace ?d (month ?d + 1) 1 of
                       Inl err \<Rightarrow> Inl err
                     | Inr next_month \<Rightarrow> add_days next_month (- 1))) = Inr ?last"
  proof (cases "month ?d = 12")
    case True
    then have "?d\<lparr>month := 12, day := 31\<rparr> = ?last"
      by (simp add: days_in_month_def)
    with vl True show ?thesis by (simp add: replace_def Let_def)
  next
    case False
    let ?n = "?d\<lparr>month := month ?d + 1, day := 1\<rparr>"
    from False valid have "valid_date ?n"
      using days_in_month_pos [of "year ?d" "month ?d + 1"] by (simp add: valid_date_def)
    then have r: "replace ?d (month ?d + 1) 1 = Inr ?n"
      by (simp add: replace_def Let_def)
    from valid have "prev_day ?n = ?last"
      by (simp add: prev_day_def valid_date_def)
    with valid have "add_days ?n (- 1) = Inr ?last"
      by (simp add: add_days_def Let_def valid_date_def)
    with False r show ?thesis by simp
  qed
  have parse: "parse_date_from_text e input = Inr (Some (strftime_ymd ?last))"
    unfolding parse_date_from_text_def using first low by (simp add: last_day)
  have top: "\<forall>d. valid_date d \<and> year d = year ?d \<and> month d = month ?d \<longrightarrow>
      day d \<le> days_in_month (year ?d) (month ?d)"
  proof (intro allI impI)
    fix d
    assume a: "valid_date d \<and> year d = year ?d \<and> month d = month ?d"
    then have "valid_date d" by (rule conjunct1)
    then have "day d \<le> days_in_month (year d) (month d)" by (simp add: valid_date_def)
    with a show "day d \<le> days_in_month (year ?d) (month ?d)" by simp
  qed
  have same: "day ?d = days_in_month (year ?d) (month ?d) \<longrightarrow>
      parse_date_from_text e input = Inr (Some (strftime_ymd ?d))"
  proof
    assume "day ?d = days_in_month (year ?d) (month ?d)"
    then have "?last = ?d" by simp
    with parse show "parse_date_from_text e input = Inr (Some (strftime_ymd ?d))" by simp
  qed
  have december: "month ?d = 12 \<longrightarrow>
      parse_date_from_text e input = Inr (Some (str_nat (year ?d) @ ''-12-31''))"
  proof
    assume "month ?d = 12"
    then have "strftime_ymd ?last = str_nat (year ?d) @ ''-12-31''"
      by (simp add: strftime_ymd_def days_in_month_def pad2_def digit_char_def digits_def)
    with parse show "parse_date_from_text e input = Inr (Some (str_nat (year ?d) @ ''-12-31''))"
      by simp
  qed
  from parse vl top same december show ?thesis by (intro conjI)
qed

text \<open>
  C9, as the code has it. The test for \<^verbatim>\<open>end of week\<close> comes first, so the statement
  is about the texts that contain \<^verbatim>\<open>end of month\<close> and not \<^verbatim>\<open>end of week\<close>. For such a
  text and every current date of \<^verbatim>\<open>datetime\<close>, \<^verbatim>\<open>parse_date_from_text\<close> returns today's
  year and month with the last day that the month has; no date of that month has a
  later day. On the last day of a month that is today, and on every day of December it
  is the 31st of December of the current year.
\<close>

theorem end_of_month_last_day:
  fixes input :: string and e :: env
  assumes phrase: "str_in ''end of month'' input \<or> str_in ''end of month'' (lower input)"
    and first: "\<not> str_in ''end of week'' (lower input)"
    and valid: "valid_date (today e)"
  shows "parse_date_from_text e input =
           Inr (Some (strftime_ymd
             ((today e)\<lparr>day := days_in_month (year (today e)) (month (today e))\<rparr>))) \<and>
         valid_date ((today e)\<lparr>day := days_in_month (year (today e)) (month (today e))\<rparr>) \<and>
         (\<forall>d. valid_date d \<and> year d = year (today e) \<and> month d = month (today e) \<longrightarrow>
            day d \<le> days_in_month (year (today e)) (month (today e))) \<and>
         (day (today e) = days_in_month (year (today e)) (month (today e)) \<longrightarrow>
            parse_date_from_text e input = Inr (Some (strftime_ymd (today e)))) \<and>
         (month (today e) = 12 \<longrightarrow>
            parse_date_from_text e input = Inr (Some (str_nat (year (today e)) @ ''-12-31'')))"
  using assms by (rule parse_date_end_of_month)

theorem end_of_month_last_day_witness:
  "str_in ''end of month'' ''pay the rent by end of month'' \<and>
   \<not> str_in ''end of week'' (lower ''pay the rent by end of month'') \<and>
   valid_date (today sample_env) \<and>
   parse_date_from_text sample_env ''pay the rent by end of month'' = Inr (Some ''2024-06-30'')"
proof -
  have p: "str_in ''end of month'' ''pay the rent by end of month''"
    by code_simp
  have w: "\<not> str_in ''end of week'' (lower ''pay the rent by end of month'')"
    by code_simp
  have v: "valid_date (today sample_env)"
    by code_simp
  have s: "strftime_ymd
      ((today sample_env)\<lparr>day := days_in_month (year (today sample_env)) (month (today sample_env))\<rparr>)
      = ''2024-06-30''"
    by code_simp
  from end_of_month_last_day [OF disjI1 [OF p] w v]
  have "parse_date_from_text sample_env ''pay the rent by end of month'' =
      Inr (Some (strftime_ymd
        ((today sample_env)\<lparr>day := days_in_month (year (today sample_env)) (month (today sample_env))\<rparr>)))"
    by (rule conjunct1)
  then have "parse_date_from_text sample_env ''pay the rent by end of month'' = Inr (Some ''2024-06-30'')"
    unfolding s .
  with p w v show ?thesis by (intro conjI)
qed

text \<open>
  C9 as stated fails on a text that has both phrases: on Monday 3 June 2024 the text
  below gives Sunday 9 June, not 30 June.
\<close>

theorem end_of_month_counterexample:
  "str_in ''end of month'' ''finish by end of week or end of month'' \<and>
   valid_date (today sample_env) \<and>
   parse_date_from_text sample_env ''finish by end of week or end of month'' =
     Inr (Some ''2024-06-09'') \<and>
   strftime_ymd ((today sample_env)\<lparr>day := days_in_month 2024 6\<rparr>) = ''2024-06-30''"
proof -
  have "str_in ''end of month'' ''finish by end of week or end of month''"
    by code_simp
  moreover have "valid_date (today sample_env)"
    by code_simp
  moreover have "str_in ''end of week'' (lower ''finish by end of week or end of month'')"
    by code_simp
  then have "parse_date_from_text sample_env ''finish by end of week or end of month'' =
     Inr (Some ''2024-06-09'')"
    by (rule parse_sample_end_of_week)
  moreover have "strftime_ymd ((today sample_env)\<lparr>day := days_in_month 2024 6\<rparr>) = ''2024-06-30''"
    by code_simp
  ultimately show ?thesis by (intro conjI)
qed

subsection \<open>Tokens survive a logout\<close>

lemma verify_token_Some_iff:
  "verify_token k db now tok = Some p \<longleftrightarrow>
     (\<exists>b s e. split_on CHR ''.'' tok = [b, s] \<and> s = signature_of k b \<and>
        decode_payload k b = Some p \<and> fromisoformat k (expires p) = Some e \<and> now \<le> e \<and>
        filter (\<lambda>row. token row = tok) (tokens_table db) \<noteq> [])"
proof (cases "split_on CHR ''.'' tok")
  case Nil
  then show ?thesis by (simp add: verify_token_def)
next
  case (Cons b r)
  note outer = Cons
  show ?thesis
  proof (cases r)
    case Nil
    with outer show ?thesis by (simp add: verify_token_def)
  next
    case (Cons s r')
    show ?thesis
    proof (cases r')
      case Nil
      with outer Cons show ?thesis
        by (cases "decode_payload k b"; cases "fromisoformat k (expires (the (decode_payload k b)))")
           (auto simp: verify_token_def)
    next
      case (Cons x r'')
      with outer \<open>r = s # r'\<close> show ?thesis by (simp add: verify_token_def)
    qed
  qed
qed

lemma verify_token_later:
  assumes "verify_token k db now tok = Some p" "fromisoformat k (expires p) = Some e" "now' \<le> e"
  shows "verify_token k db now' tok = Some p"
  using assms unfolding verify_token_Some_iff by auto

text \<open>
  C10. A call of \<^verbatim>\<open>/logout\<close>, with whatever credentials, returns the database it was
  given: no row of \<^verbatim>\<open>tokens\<close> is deleted. So a token that \<^verbatim>\<open>verify_token\<close> accepted
  before the call logs out successfully and is accepted again after it, at every
  instant up to the expiration instant of its payload.
\<close>

theorem logout_does_not_revoke:
  "snd (logout k db now credentials) = db \<and>
   tokens_table (snd (logout k db now credentials)) = tokens_table db \<and>
   (verify_token k db now tok = Some p \<and> fromisoformat k (expires p) = Some e \<and> now' \<le> e \<longrightarrow>
      fst (logout k db now (Some tok)) = Inr ''Logged out successfully'' \<and>
      verify_token k (snd (logout k db now (Some tok))) now' tok = Some p)"
proof -
  have frame: "snd (logout k db now c) = db" for c
    by (simp add: logout_def split: sum.splits)
  have ok: "fst (logout k db now (Some tok)) = Inr ''Logged out successfully''"
    if "verify_token k db now tok = Some p"
    using that by (simp add: logout_def get_current_user_def)
  have later: "verify_token k (snd (logout k db now (Some tok))) now' tok = Some p"
    if "verify_token k db now tok = Some p" "fromisoformat k (expires p) = Some e" "now' \<le> e"
    unfolding frame using that by (rule verify_token_later)
  show ?thesis
    using ok later by (simp add: frame)
qed

theorem logout_does_not_revoke_witness:
  "verify_token
     \<lparr>signature_of = (\<lambda>b. ''5f2a''),
      decode_payload = (\<lambda>b. Some \<lparr>payload_user_id = 1, username = ''alice'',
                                   expires = ''2024-06-10T09:00:00'', random = ''77''\<rparr>),
      fromisoformat = (\<lambda>s. Some 700)\<rparr>
     (snd (logout
        \<lparr>signature_of = (\<lambda>b. ''5f2a''),
         decode_payload = (\<lambda>b. Some \<lparr>payload_user_id = 1, username = ''alice'',
                                      expires = ''2024-06-10T09:00:00'', random = ''77''\<rparr>),
         fromisoformat = (\<lambda>s. Some 700)\<rparr>
        \<lparr>tasks_table = [], tasks_seq = 0,
         tokens_table = [\<lparr>token_user_id = 1, token = ''e30.5f2a'',
                          expires_at = ''2024-06-10T09:00:00''\<rparr>]\<rparr>
        100 (Some ''e30.5f2a'')))
     700 ''e30.5f2a''
   = Some \<lparr>payload_user_id = 1, username = ''alice'',
           expires = ''2024-06-10T09:00:00'', random = ''77''\<rparr>"
  using logout_does_not_revoke
    [of "\<lparr>signature_of = (\<lambda>b. ''5f2a''),
         decode_payload = (\<lambda>b. Some \<lparr>payload_user_id = 1, username = ''alice'',
                                      expires = ''2024-06-10T09:00:00'', random = ''77''\<rparr>),
         fromisoformat = (\<lambda>s. Some 700)\<rparr>"
        "\<lparr>tasks_table = [], tasks_seq = 0,
         tokens_table = [\<lparr>token_user_id = 1, token = ''e30.5f2a'',
                          expires_at = ''2024-06-10T09:00:00''\<rparr>]\<rparr>"
        100 "Some ''e30.5f2a''" "''e30.5f2a''"
        "\<lparr>payload_user_id = 1, username = ''alice'',
           expires = ''2024-06-10T09:00:00'', random = ''77''\<rparr>"
        700 700]
  by (simp add: verify_token_def)

subsection \<open>Intent classification\<close>

text \<open>
  C2. The chain of \<^verbatim>\<open>process_natural_language\<close> chooses exactly the intent that the
  ordered checks of the specification give for the lower-cased, trimmed text, and runs
  that intent's branch: list keywords first, then the completion keywords, then the
  deletion keywords, and \<open>add\<close> otherwise. A text with a list keyword and a completion
  keyword is a list request.
\<close>

theorem intent_first_match_wins:
  "process_natural_language e text uid db =
     (case spec_intent (strip (lower text)) of
        Intent_list \<Rightarrow> list_intent e (strip (lower text)) uid db
      | Intent_complete \<Rightarrow> complete_intent (strip (lower text)) uid db
      | Intent_delete \<Rightarrow> delete_intent (strip (lower text)) uid db
      | Intent_add \<Rightarrow> add_intent e text uid db) \<and>
   ((\<exists>w \<in> {''show'', ''list'', ''what's'', ''what do i have'', ''my tasks'', ''view''}.
        sublist w (strip (lower text))) \<and>
    (\<exists>w \<in> {''done'', ''finished'', ''complete'', ''completed''}. sublist w (strip (lower text))) \<longrightarrow>
      spec_intent (strip (lower text)) = Intent_list \<and>
      process_natural_language e text uid db = list_intent e (strip (lower text)) uid db)"
  unfolding process_natural_language_def spec_intent_def any_in_def str_in_def list_ex_iff Let_def
  by simp

theorem intent_first_match_wins_witness:
  "spec_intent (strip (lower ''Show DONE tasks  '')) = Intent_list \<and>
   process_natural_language
     \<lparr>today = \<lparr>year = 2024, month = 6, day = 3\<rparr>, current_timestamp = ''2024-06-03 10:00:00'',
      dateparser_parse = (\<lambda>t. None)\<rparr>
     ''Show DONE tasks  '' 1
     \<lparr>tasks_table = [], tasks_seq = 0, tokens_table = []\<rparr>
   = list_intent
       \<lparr>today = \<lparr>year = 2024, month = 6, day = 3\<rparr>, current_timestamp = ''2024-06-03 10:00:00'',
        dateparser_parse = (\<lambda>t. None)\<rparr>
       ''show done tasks'' 1
       \<lparr>tasks_table = [], tasks_seq = 0, tokens_table = []\<rparr>"
proof -
  have t: "strip (lower ''Show DONE tasks  '') = ''show done tasks''"
    by code_simp
  have l: "\<exists>w \<in> {''show'', ''list'', ''what's'', ''what do i have'', ''my tasks'', ''view''}.
             sublist w ''show done tasks''"
    by code_simp
  have d: "\<exists>w \<in> {''done'', ''finished'', ''complete'', ''completed''}. sublist w ''show done tasks''"
    by code_simp
  show ?thesis
    using intent_first_match_wins
      [of "\<lparr>today = \<lparr>year = 2024, month = 6, day = 3\<rparr>,
            current_timestamp = ''2024-06-03 10:00:00'', dateparser_parse = (\<lambda>t. None)\<rparr>"
          "''Show DONE tasks  ''" 1 "\<lparr>tasks_table = [], tasks_seq = 0, tokens_table = []\<rparr>"]
      l d
    unfolding t by blast
qed

end
